theory Spec2Isabelle
  imports Main
begin

section \<open>The JSON formatter of formatter.go\<close>

text \<open>
  A shallow embedding of the package \<^verbatim>\<open>jsonformat\<close> (file \<^verbatim>\<open>formatter.go\<close>):
  the configuration with its functional options, the token-driven engine
  \<^verbatim>\<open>TokenParser\<close> and the entry point \<^verbatim>\<open>Format\<close>.

  Conventions of the embedding.
  \<^item> A Go \<^verbatim>\<open>string\<close> is a byte sequence, here a \<open>string\<close> (\<open>char\<close> is a byte);
    Go's \<^verbatim>\<open>len\<close> is \<open>length\<close>.
  \<^item> A Go \<^verbatim>\<open>int\<close> is an \<open>int\<close>. The only arithmetic of the engine that can leave
    the 64-bit range is the product in \<^verbatim>\<open>writeIndent\<close>, where the wrap-around
    is written out (\<open>wrap64\<close>).
  \<^item> A pointer that the code tests against \<^verbatim>\<open>nil\<close> is an \<open>option\<close>.
  \<^item> The methods of \<^verbatim>\<open>TokenParser\<close> mutate the parser in place and return an
    \<^verbatim>\<open>error\<close>. They are functions from the parser to the parser as the call
    leaves it, paired with what the call returned: \<open>None\<close> for \<^verbatim>\<open>nil\<close>,
    \<open>Some (Err e)\<close> for an error, \<open>Some (Panic v)\<close> when the call panics.
    What was written before an error stays in the builder, as in Go.
  \<^item> \<^verbatim>\<open>strings.Builder.WriteString\<close> never returns an error, so the branches
    that wrap such an error are not reachable and have no counterpart here.
\<close>

subsection \<open>Errors\<close>

datatype error =
    FormatError (Msg: string) (Position: int) (Original: "error option")
  | ForeignError string

definition NewFormatError :: "string \<Rightarrow> error" where
  "NewFormatError msg = FormatError msg 0 None"

definition NewFormatErrorWithPosition :: "string \<Rightarrow> int \<Rightarrow> error" where
  "NewFormatErrorWithPosition msg position = FormatError msg position None"

definition WrapFormatError :: "string \<Rightarrow> error \<Rightarrow> error" where
  "WrapFormatError msg err = FormatError msg 0 (Some err)"

definition WrapFormatErrorWithPosition :: "string \<Rightarrow> int \<Rightarrow> error \<Rightarrow> error" where
  "WrapFormatErrorWithPosition msg position err = FormatError msg position (Some err)"

text \<open>The value a panic carries: an error, a string, or anything else.\<close>

datatype panic_value = PanicError error | PanicString string | PanicOther

datatype fault = Err error | Panic panic_value

subsection \<open>Configuration\<close>

record Config =
  IndentSize :: int
  UseTab :: bool
  CompactDepth :: int

type_synonym ConfigOption = "Config \<Rightarrow> Config"

definition DefaultConfig :: Config where
  "DefaultConfig = \<lparr>IndentSize = 2, UseTab = False, CompactDepth = 3\<rparr>"

definition validateConfig :: "Config option \<Rightarrow> error option" where
  "validateConfig config =
     (case config of
        None \<Rightarrow> Some (NewFormatError ''config cannot be nil'')
      | Some c \<Rightarrow>
          if IndentSize c < 0 then Some (NewFormatError ''IndentSize must be non-negative'')
          else if IndentSize c > 20 then
            Some (NewFormatError ''IndentSize must not exceed 20 spaces'')
          else if CompactDepth c < 0 then
            Some (NewFormatError ''CompactDepth must be non-negative'')
          else None)"

text \<open>
  \<^verbatim>\<open>NewConfig\<close> returns a pointer: \<open>Some\<close> of the configuration. The options run
  in order on the configuration that starts as the default one.
\<close>

definition NewConfig :: "ConfigOption list \<Rightarrow> Config option" where
  "NewConfig options =
     (let config = foldl (\<lambda>c option. option c) DefaultConfig options
      in case validateConfig (Some config) of
           Some err \<Rightarrow> Some DefaultConfig
         | None \<Rightarrow> Some config)"

definition WithIndentSize :: "int \<Rightarrow> ConfigOption" where
  "WithIndentSize size' c = (if size' \<ge> 0 \<and> size' \<le> 20 then c\<lparr>IndentSize := size'\<rparr> else c)"

definition WithTabs :: ConfigOption where
  "WithTabs c = c\<lparr>UseTab := True\<rparr>"

definition WithSpaces :: ConfigOption where
  "WithSpaces c = c\<lparr>UseTab := False\<rparr>"

definition WithCompactDepth :: "int \<Rightarrow> ConfigOption" where
  "WithCompactDepth d c = (if d \<ge> 0 then c\<lparr>CompactDepth := d\<rparr> else c)"

datatype Formatter = Formatter (formatterConfig: "Config option")

definition NewFormatter :: "Config option \<Rightarrow> Formatter" where
  "NewFormatter config =
     (case config of None \<Rightarrow> Formatter (Some DefaultConfig) | Some c \<Rightarrow> Formatter (Some c))"

subsection \<open>Tokens\<close>

text \<open>
  A \<^verbatim>\<open>float64\<close> token. Floating point is not modelled: a finite value is
  represented by the text that \<^verbatim>\<open>json.Marshal\<close> renders it as (its shortest decimal
  that reads back as the same value), and the three non-finite values are kept apart
  because the engine tests for them.
\<close>

datatype float64 = Finite string | Inf bool | NaN

text \<open>
  A \<^verbatim>\<open>json.Token\<close>: a delimiter (a rune), a string, a number, a boolean,
  \<^verbatim>\<open>nil\<close>, or a value of any other type (given by the name of its type).
\<close>

datatype token = Delim char | String string | Float64 float64 | Bool bool | Nil | Other string

text \<open>
  What successive calls of \<^verbatim>\<open>decoder.Token()\<close> return: the tokens in order, then
  either \<^verbatim>\<open>io.EOF\<close> or another error; with the error comes the number of bytes
  the reader has not handed out yet (\<^verbatim>\<open>reader.Len()\<close>). The decoder itself
  belongs to the standard library and is not modelled.
\<close>

datatype stream_end = EOF | DecodeError error int

subsection \<open>The standard library's string encoder\<close>

text \<open>
  Modelled from the spec: \<^verbatim>\<open>json.Marshal\<close> on a string, which \<^verbatim>\<open>escapeString\<close>
  delegates to. It is the encoder of the standard library (package
  \<^verbatim>\<open>encoding/json\<close>), not a function of this repository. It writes a quote, the
  escaped bytes and a quote. Of the bytes below \<open>0x80\<close>, the quote and the backslash
  get a backslash, backspace, form feed, newline, carriage return and tab their short
  escapes, and every other control byte and the three characters \<open><\<close>, \<open>>\<close>,
  \<open>&\<close> the form \<^verbatim>\<open>\u00XX\<close>. A byte from \<open>0x80\<close> on starts a UTF-8 sequence:
  an invalid one gives \<^verbatim>\<open>\ufffd\<close> for its first byte, U+2028 and U+2029 are escaped,
  any other sequence is copied.
\<close>

definition hex :: "nat \<Rightarrow> char" where
  "hex n = ''0123456789abcdef'' ! (n mod 16)"

definition escapeByte :: "char \<Rightarrow> string" where
  "escapeByte b =
     (if b = CHR 0x5C \<or> b = CHR 0x22 then [CHR 0x5C, b]
      else if b = CHR 0x08 then [CHR 0x5C, CHR ''b'']
      else if b = CHR 0x0C then [CHR 0x5C, CHR ''f'']
      else if b = CHR 0x0A then [CHR 0x5C, CHR ''n'']
      else if b = CHR 0x0D then [CHR 0x5C, CHR ''r'']
      else if b = CHR 0x09 then [CHR 0x5C, CHR ''t'']
      else if (of_char b :: nat) < 0x20 \<or> b = CHR ''<'' \<or> b = CHR ''>'' \<or> b = CHR ''&''
        then [CHR 0x5C, CHR ''u'', CHR ''0'', CHR ''0'',
              hex ((of_char b :: nat) div 16), hex ((of_char b :: nat) mod 16)]
      else [b])"

definition continuation :: "nat \<Rightarrow> bool" where
  "continuation b = (0x80 \<le> b \<and> b \<le> 0xBF)"

text \<open>
  The width of the UTF-8 sequence at the head of the bytes, \<open>0\<close> when there is none
  (\<^verbatim>\<open>utf8.DecodeRuneInString\<close> then returns \<^verbatim>\<open>RuneError\<close> with size 1).
\<close>

fun decodeSize :: "nat list \<Rightarrow> nat" where
  "decodeSize [] = 0"
| "decodeSize (b0 # bs) =
     (if 0xC2 \<le> b0 \<and> b0 \<le> 0xDF then
        (case bs of b1 # _ \<Rightarrow> if continuation b1 then 2 else 0 | _ \<Rightarrow> 0)
      else if 0xE0 \<le> b0 \<and> b0 \<le> 0xEF then
        (case bs of
           b1 # b2 # _ \<Rightarrow>
             if (if b0 = 0xE0 then 0xA0 else 0x80) \<le> b1
                \<and> b1 \<le> (if b0 = 0xED then 0x9F else 0xBF) \<and> continuation b2
             then 3 else 0
         | _ \<Rightarrow> 0)
      else if 0xF0 \<le> b0 \<and> b0 \<le> 0xF4 then
        (case bs of
           b1 # b2 # b3 # _ \<Rightarrow>
             if (if b0 = 0xF0 then 0x90 else 0x80) \<le> b1
                \<and> b1 \<le> (if b0 = 0xF4 then 0x8F else 0xBF)
                \<and> continuation b2 \<and> continuation b3
             then 4 else 0
         | _ \<Rightarrow> 0)
      else 0)"

function appendStringBody :: "string \<Rightarrow> string" where
  "appendStringBody [] = []"
| "appendStringBody (b # bs) =
     (if (of_char b :: nat) < 0x80 then escapeByte b @ appendStringBody bs
      else
        let n = decodeSize (map of_char (b # bs))
        in if n = 0 then [CHR 0x5C, CHR ''u'', CHR ''f'', CHR ''f'', CHR ''f'', CHR ''d'']
                          @ appendStringBody bs
           else if take 3 (b # bs) = [CHR 0xE2, CHR 0x80, CHR 0xA8] then
             [CHR 0x5C, CHR ''u'', CHR ''2'', CHR ''0'', CHR ''2'', CHR ''8'']
               @ appendStringBody (drop 2 bs)
           else if take 3 (b # bs) = [CHR 0xE2, CHR 0x80, CHR 0xA9] then
             [CHR 0x5C, CHR ''u'', CHR ''2'', CHR ''0'', CHR ''2'', CHR ''9'']
               @ appendStringBody (drop 2 bs)
           else take n (b # bs) @ appendStringBody (drop (n - 1) bs))"
  by pat_completeness auto
termination
  by (relation "measure length") auto

definition json_Marshal_string :: "string \<Rightarrow> error + string" where
  "json_Marshal_string s = Inr ([CHR 0x22] @ appendStringBody s @ [CHR 0x22])"

text \<open>
  Modelled from the spec: \<^verbatim>\<open>json.Marshal\<close> on a \<^verbatim>\<open>float64\<close>, of the standard
  library. It gives the canonical text of a finite value and an error for the others.
\<close>

definition json_Marshal_float64 :: "float64 \<Rightarrow> error + string" where
  "json_Marshal_float64 v =
     (case v of
        Finite text \<Rightarrow> Inr text
      | _ \<Rightarrow> Inl (ForeignError ''json: unsupported value''))"

text \<open>
  Modelled from the spec: \<^verbatim>\<open>strings.Repeat\<close> of the standard library, which panics
  on a negative count (one of the internal faults that \<^verbatim>\<open>Format\<close> recovers from).
\<close>

definition strings_Repeat :: "string \<Rightarrow> int \<Rightarrow> panic_value + string" where
  "strings_Repeat s count =
     (if count < 0 then Inl (PanicString ''strings: negative Repeat count'')
      else Inr (concat (replicate (nat count) s)))"


subsection \<open>The token parser\<close>

text \<open>
  The state of the engine. The field \<^verbatim>\<open>decoder\<close> is used by \<^verbatim>\<open>Format\<close> only and
  is replaced by the token stream that \<^verbatim>\<open>Format\<close> reads. The top of the stack
  \<^verbatim>\<open>inArray\<close> is the last element of the list.
\<close>

record TokenParser =
  depth :: int
  inArray :: "bool list"
  builder :: "string option"
  config :: "Config option"
  isFirstElement :: bool
  expectingKey :: bool
  inputLength :: int

type_synonym step = "TokenParser \<times> fault option"

definition ok :: "TokenParser \<Rightarrow> step" where
  "ok p = (p, None)"

definition fail :: "TokenParser \<Rightarrow> string \<Rightarrow> step" where
  "fail p msg = (p, Some (Err (NewFormatError msg)))"

text \<open>
  \<open>andThen r f\<close> continues with \<open>f\<close> when the call \<open>r\<close> returned \<^verbatim>\<open>nil\<close>;
  \<open>wrapping msg r\<close> is the idiom
  \<^verbatim>\<open>if err := r; err != nil { return WrapFormatError(msg, err) }\<close>, which a panic
  passes through.
\<close>

definition andThen :: "step \<Rightarrow> (TokenParser \<Rightarrow> step) \<Rightarrow> step" where
  "andThen r f = (case r of (p, None) \<Rightarrow> f p | (p, Some e) \<Rightarrow> (p, Some e))"

definition wrapping :: "string \<Rightarrow> step \<Rightarrow> step" where
  "wrapping msg r =
     (case r of
        (p, Some (Err e)) \<Rightarrow> (p, Some (Err (WrapFormatError msg e)))
      | _ \<Rightarrow> r)"

text \<open>
  \<^verbatim>\<open>p.builder.WriteString(s)\<close>. Every call in the source comes after the test
  \<^verbatim>\<open>p.builder == nil\<close> of the same method.
\<close>

definition WriteString :: "TokenParser \<Rightarrow> string \<Rightarrow> TokenParser" where
  "WriteString p s = p\<lparr>builder := map_option (\<lambda>b. b @ s) (builder p)\<rparr>"

definition isInArray :: "TokenParser \<Rightarrow> bool" where
  "isInArray p = (if length (inArray p) = 0 then False else last (inArray p))"

text \<open>
  \<^verbatim>\<open>shouldFormatCompact\<close> reads \<^verbatim>\<open>p.config.CompactDepth\<close>; every call in the
  source comes after the test \<^verbatim>\<open>p.config == nil\<close> of the calling method.
\<close>

definition shouldFormatCompact :: "TokenParser \<Rightarrow> bool" where
  "shouldFormatCompact p =
     (case config p of
        Some c \<Rightarrow> CompactDepth c > 0 \<and> depth p \<ge> CompactDepth c
      | None \<Rightarrow> False)"

definition wrap64 :: "int \<Rightarrow> int" where
  "wrap64 x = (x + 2 ^ 63) mod 2 ^ 64 - 2 ^ 63"

definition writeIndent :: "TokenParser \<Rightarrow> step" where
  "writeIndent p =
     (if builder p = None then fail p ''invalid parser state: builder is nil''
      else case config p of
        None \<Rightarrow> fail p ''invalid parser state: config is nil''
      | Some c \<Rightarrow>
          if depth p < 0 then fail p ''invalid parser state: negative depth''
          else if UseTab c then
            (case strings_Repeat [CHR 0x09] (depth p) of
               Inl v \<Rightarrow> (p, Some (Panic v))
             | Inr indentStr \<Rightarrow> ok (WriteString p indentStr))
          else
            let totalSpaces = wrap64 (depth p * IndentSize c)
            in if totalSpaces > 10000 then
                 fail p ''indentation too large (exceeds 10000 characters)''
               else
                 (case strings_Repeat '' '' totalSpaces of
                    Inl v \<Rightarrow> (p, Some (Panic v))
                  | Inr indentStr \<Rightarrow> ok (WriteString p indentStr)))"

definition writeNewlineAndIndent :: "TokenParser \<Rightarrow> step" where
  "writeNewlineAndIndent p =
     (if builder p = None then fail p ''invalid parser state: builder is nil''
      else wrapping ''failed to write indentation after newline''
             (writeIndent (WriteString p [CHR 0x0A])))"

definition escapeString :: "string \<Rightarrow> error + string" where
  "escapeString s =
     (if length s > 1000000 then
        Inl (NewFormatError ''string too large for escaping (exceeds 1MB limit)'')
      else case json_Marshal_string s of
        Inl err \<Rightarrow> Inl (WrapFormatError ''failed to escape string for JSON output'' err)
      | Inr escapedStr \<Rightarrow>
          if length escapedStr \<ge> 2 \<and> hd escapedStr = CHR 0x22 \<and> last escapedStr = CHR 0x22
          then Inr (butlast (tl escapedStr))
          else Inr escapedStr)"

definition isNaN :: "float64 \<Rightarrow> bool" where
  "isNaN v = (v = NaN)"

definition isInfinite :: "float64 \<Rightarrow> bool" where
  "isInfinite v = (case v of Inf _ \<Rightarrow> True | _ \<Rightarrow> False)"

text \<open>
  The tests \<^verbatim>\<open>value != value\<close> and \<^verbatim>\<open>value == value+1 && value == value*2\<close> of the
  source hold of the NaN and of the two infinities respectively.
\<close>

definition formatNumber :: "float64 \<Rightarrow> error + string" where
  "formatNumber v =
     (if isNaN v then Inl (NewFormatError ''cannot format NaN as JSON number'')
      else if isInfinite v then
        Inl (NewFormatError ''cannot format infinite value as JSON number'')
      else case json_Marshal_float64 v of
        Inl err \<Rightarrow> Inl (WrapFormatError ''failed to format number for JSON output'' err)
      | Inr formatted \<Rightarrow> Inr formatted)"

definition enterArray :: "TokenParser \<Rightarrow> step" where
  "enterArray p =
     (if depth p < 0 then fail p ''invalid parser state: negative depth''
      else if depth p \<ge> 100 then fail p ''JSON structure too deeply nested (max depth: 100)''
      else ok (p\<lparr>depth := depth p + 1, inArray := inArray p @ [True]\<rparr>))"

definition exitArray :: "TokenParser \<Rightarrow> step" where
  "exitArray p =
     (if depth p \<le> 0 then
        fail p ''invalid parser state: cannot exit array, depth is zero or negative''
      else if length (inArray p) = 0 then
        fail p ''invalid parser state: cannot exit array, no array context''
      else if \<not> last (inArray p) then
        fail p ''invalid parser state: cannot exit array, currently in object context''
      else ok (p\<lparr>depth := depth p - 1, inArray := butlast (inArray p)\<rparr>))"

definition enterObject :: "TokenParser \<Rightarrow> step" where
  "enterObject p =
     (if depth p < 0 then fail p ''invalid parser state: negative depth''
      else if depth p \<ge> 100 then fail p ''JSON structure too deeply nested (max depth: 100)''
      else ok (p\<lparr>depth := depth p + 1, inArray := inArray p @ [False]\<rparr>))"

definition exitObject :: "TokenParser \<Rightarrow> step" where
  "exitObject p =
     (if depth p \<le> 0 then
        fail p ''invalid parser state: cannot exit object, depth is zero or negative''
      else if length (inArray p) = 0 then
        fail p ''invalid parser state: cannot exit object, no object context''
      else if last (inArray p) then
        fail p ''invalid parser state: cannot exit object, currently in array context''
      else ok (p\<lparr>depth := depth p - 1, inArray := butlast (inArray p)\<rparr>))"

text \<open>
  Three blocks that the source writes out in the handlers. \<open>commaSeparator\<close> is the
  comma followed by a space (compact) or by a newline and the indentation;
  \<open>valueSeparator\<close> is what precedes a value (a scalar or an opening brace): the comma
  block for a later element of an array, the newline and indentation for the first
  element of an array that is not compact, nothing otherwise; \<open>keySeparator\<close> is what
  precedes a key: the comma block for a later key, the newline and indentation for the
  first key of an object that is not compact.
\<close>

definition commaSeparator :: "TokenParser \<Rightarrow> step" where
  "commaSeparator p =
     (let p1 = WriteString p '',''
      in if shouldFormatCompact p1 then ok (WriteString p1 '' '')
         else wrapping ''failed to write newline and indent'' (writeNewlineAndIndent p1))"

definition valueSeparator :: "TokenParser \<Rightarrow> step" where
  "valueSeparator p =
     (if \<not> isFirstElement p \<and> isInArray p then commaSeparator p
      else if depth p > 0 \<and> isInArray p then
        (if shouldFormatCompact p then ok p
         else wrapping ''failed to write newline and indent'' (writeNewlineAndIndent p))
      else ok p)"

definition keySeparator :: "TokenParser \<Rightarrow> step" where
  "keySeparator p =
     (if \<not> isFirstElement p then commaSeparator p
      else if depth p > 0 \<and> \<not> shouldFormatCompact p then
        wrapping ''failed to write newline and indent'' (writeNewlineAndIndent p)
      else ok p)"

text \<open>After a value: it was an element, and inside an object a key comes next.\<close>

definition afterValue :: "TokenParser \<Rightarrow> TokenParser" where
  "afterValue p =
     (let p1 = p\<lparr>isFirstElement := False\<rparr>
      in if \<not> isInArray p1 then p1\<lparr>expectingKey := True\<rparr> else p1)"

definition startObject :: "TokenParser \<Rightarrow> step" where
  "startObject p =
     (if builder p = None then fail p ''invalid parser state: builder is nil''
      else if config p = None then fail p ''invalid parser state: config is nil''
      else if expectingKey p \<and> depth p > 0 then
        fail p ''malformed JSON: unexpected object start, expected object key''
      else if depth p \<ge> 100 then fail p ''JSON structure too deeply nested (max depth: 100)''
      else
        andThen (valueSeparator p) (\<lambda>p.
        andThen (wrapping ''failed to enter object state''
                   (enterObject (if depth p > 0 \<and> \<not> isInArray p then WriteString p '' {''
                                 else WriteString p ''{''))) (\<lambda>p.
        ok (p\<lparr>isFirstElement := True, expectingKey := True\<rparr>))))"

definition endObject :: "TokenParser \<Rightarrow> step" where
  "endObject p =
     (if builder p = None then fail p ''invalid parser state: builder is nil''
      else if config p = None then fail p ''invalid parser state: config is nil''
      else if depth p = 0 then
        fail p ''malformed JSON: unexpected object end, no matching opening brace''
      else if length (inArray p) = 0 then
        fail p ''malformed JSON: unexpected object end, invalid parser state''
      else if isInArray p then
        fail p ''malformed JSON: unexpected object end, currently in array context''
      else
        let isCompact = shouldFormatCompact p
        in andThen (wrapping ''failed to exit object state'' (exitObject p)) (\<lambda>p.
           let p = p\<lparr>expectingKey := False\<rparr>
           in if isCompact then ok (WriteString p ''}'')
              else andThen (wrapping ''failed to write newline and indent''
                              (writeNewlineAndIndent p)) (\<lambda>p.
                   ok (WriteString p ''}''))))"

definition startArray :: "TokenParser \<Rightarrow> step" where
  "startArray p =
     (if builder p = None then fail p ''invalid parser state: builder is nil''
      else if config p = None then fail p ''invalid parser state: config is nil''
      else if expectingKey p \<and> depth p > 0 then
        fail p ''malformed JSON: unexpected array start, expected object key''
      else if depth p \<ge> 100 then fail p ''JSON structure too deeply nested (max depth: 100)''
      else
        andThen (if \<not> isFirstElement p \<and> isInArray p then commaSeparator p else ok p) (\<lambda>p.
        andThen (wrapping ''failed to enter array state''
                   (enterArray (if depth p > 0 \<and> \<not> isInArray p then WriteString p '' [''
                                else WriteString p ''[''))) (\<lambda>p.
        ok (p\<lparr>isFirstElement := True, expectingKey := False\<rparr>))))"

definition endArray :: "TokenParser \<Rightarrow> step" where
  "endArray p =
     (if builder p = None then fail p ''invalid parser state: builder is nil''
      else if config p = None then fail p ''invalid parser state: config is nil''
      else if depth p = 0 then
        fail p ''malformed JSON: unexpected array end, no matching opening bracket''
      else if length (inArray p) = 0 then
        fail p ''malformed JSON: unexpected array end, invalid parser state''
      else if \<not> isInArray p then
        fail p ''malformed JSON: unexpected array end, currently in object context''
      else
        let isCompact = shouldFormatCompact p
        in andThen (wrapping ''failed to exit array state'' (exitArray p)) (\<lambda>p.
           andThen (if isCompact then ok (WriteString p '']'')
                    else andThen (wrapping ''failed to write newline and indent''
                                    (writeNewlineAndIndent p)) (\<lambda>p.
                         ok (WriteString p '']''))) (\<lambda>p.
           ok (if \<not> isInArray p then p\<lparr>expectingKey := True\<rparr> else p))))"

definition handleString :: "TokenParser \<Rightarrow> string \<Rightarrow> step" where
  "handleString p v =
     (if builder p = None then fail p ''invalid parser state: builder is nil''
      else if config p = None then fail p ''invalid parser state: config is nil''
      else if length v > 1000000 then fail p ''string value too large (exceeds 1MB limit)''
      else if expectingKey p then
        (if depth p = 0 \<or> isInArray p then
           fail p ''malformed JSON: unexpected object key outside of object context''
         else
           andThen (keySeparator p) (\<lambda>p.
           let p = WriteString p [CHR 0x22]
           in case escapeString v of
                Inl err \<Rightarrow> (p, Some (Err (WrapFormatError ''failed to escape object key'' err)))
              | Inr escapedKey \<Rightarrow>
                  ok ((WriteString (WriteString p escapedKey) [CHR 0x22, CHR '':''])
                        \<lparr>isFirstElement := False, expectingKey := False\<rparr>)))
      else
        andThen (valueSeparator p) (\<lambda>p.
        let p = (if depth p > 0 \<and> \<not> isInArray p then WriteString p [CHR '' '', CHR 0x22]
                 else WriteString p [CHR 0x22])
        in case escapeString v of
             Inl err \<Rightarrow> (p, Some (Err (WrapFormatError ''failed to escape string value'' err)))
           | Inr escapedValue \<Rightarrow>
               ok (afterValue (WriteString (WriteString p escapedValue) [CHR 0x22]))))"

definition handleNumber :: "TokenParser \<Rightarrow> float64 \<Rightarrow> step" where
  "handleNumber p v =
     (if builder p = None then fail p ''invalid parser state: builder is nil''
      else if config p = None then fail p ''invalid parser state: config is nil''
      else if expectingKey p then
        fail p ''malformed JSON: unexpected number, expected object key''
      else if isNaN v then fail p ''invalid JSON: NaN values are not allowed''
      else if isInfinite v then fail p ''invalid JSON: infinite values are not allowed''
      else
        andThen (valueSeparator p) (\<lambda>p.
        case formatNumber v of
          Inl err \<Rightarrow> (p, Some (Err (WrapFormatError ''failed to format number'' err)))
        | Inr formattedNumber \<Rightarrow>
            ok (afterValue (if depth p > 0 \<and> \<not> isInArray p
                            then WriteString p ('' '' @ formattedNumber)
                            else WriteString p formattedNumber))))"

definition handleBoolean :: "TokenParser \<Rightarrow> bool \<Rightarrow> step" where
  "handleBoolean p v =
     (if builder p = None then fail p ''invalid parser state: builder is nil''
      else if config p = None then fail p ''invalid parser state: config is nil''
      else if expectingKey p then
        fail p ''malformed JSON: unexpected boolean, expected object key''
      else
        andThen (valueSeparator p) (\<lambda>p.
        let boolStr = (if v then ''true'' else ''false'')
        in ok (afterValue (if depth p > 0 \<and> \<not> isInArray p
                           then WriteString p ('' '' @ boolStr)
                           else WriteString p boolStr))))"

definition handleNull :: "TokenParser \<Rightarrow> step" where
  "handleNull p =
     (if builder p = None then fail p ''invalid parser state: builder is nil''
      else if config p = None then fail p ''invalid parser state: config is nil''
      else if expectingKey p then
        fail p ''malformed JSON: unexpected null, expected object key''
      else
        andThen (valueSeparator p) (\<lambda>p.
        ok (afterValue (if depth p > 0 \<and> \<not> isInArray p
                        then WriteString p '' null''
                        else WriteString p ''null''))))"

definition handleDelimiter :: "TokenParser \<Rightarrow> char \<Rightarrow> step" where
  "handleDelimiter p delim =
     (if delim = CHR ''{'' then startObject p
      else if delim = CHR ''}'' then endObject p
      else if delim = CHR ''['' then startArray p
      else if delim = CHR '']'' then endArray p
      else fail p (''unknown delimiter: '' @ [delim]))"

definition processToken :: "TokenParser \<Rightarrow> token \<Rightarrow> step" where
  "processToken p t =
     (if depth p < 0 then fail p ''invalid parser state: negative depth''
      else if depth p > 100 then fail p ''JSON structure too deeply nested (max depth: 100)''
      else case t of
        Delim v \<Rightarrow> handleDelimiter p v
      | String v \<Rightarrow> handleString p v
      | Float64 v \<Rightarrow> handleNumber p v
      | Bool v \<Rightarrow> handleBoolean p v
      | Nil \<Rightarrow> handleNull p
      | Other ty \<Rightarrow> fail p (''unknown token type: '' @ ty))"

subsection \<open>Format\<close>

definition calculatePosition :: "TokenParser \<Rightarrow> int \<Rightarrow> int" where
  "calculatePosition p readerLen =
     (let currentPos = inputLength p - readerLen
      in if currentPos < 0 then 0
         else if currentPos > inputLength p then inputLength p
         else currentPos)"

text \<open>
  The loop of \<^verbatim>\<open>Format\<close> over the tokens: it returns from \<^verbatim>\<open>Format\<close>, panics,
  or leaves the loop at \<^verbatim>\<open>io.EOF\<close> with the parser and the number of tokens.
\<close>

datatype loop_result =
    Returned string "error option"
  | Panicked panic_value
  | Finished TokenParser int

fun formatLoop :: "TokenParser \<Rightarrow> int \<Rightarrow> token list \<Rightarrow> stream_end \<Rightarrow> loop_result" where
  "formatLoop p tokenCount [] EOF = Finished p tokenCount"
| "formatLoop p tokenCount [] (DecodeError err readerLen) =
     Returned [] (Some (WrapFormatErrorWithPosition ''invalid JSON input''
                          (calculatePosition p readerLen) err))"
| "formatLoop p tokenCount (t # ts) e =
     (if tokenCount + 1 > 10000 then
        Returned [] (Some (NewFormatError
          ''JSON structure too complex or malformed (too many tokens)''))
      else case processToken p t of
        (p', None) \<Rightarrow> formatLoop p' (tokenCount + 1) ts e
      | (p', Some (Err err)) \<Rightarrow> Returned [] (Some err)
      | (p', Some (Panic v)) \<Rightarrow> Panicked v)"

text \<open>The deferred function of \<^verbatim>\<open>Format\<close>: what a recovered panic turns into.\<close>

definition recoverPanic :: "panic_value \<Rightarrow> string \<times> error option" where
  "recoverPanic r =
     (case r of
        PanicError v \<Rightarrow> ([], Some (WrapFormatError ''panic during formatting'' v))
      | PanicString v \<Rightarrow> ([], Some (NewFormatError (''panic during formatting: '' @ v)))
      | PanicOther \<Rightarrow> ([], Some (NewFormatError ''unexpected panic during formatting'')))"

definition newParser :: "Formatter \<Rightarrow> string \<Rightarrow> TokenParser" where
  "newParser f jsonStr =
     \<lparr>depth = 0, inArray = [], builder = Some [], config = formatterConfig f,
      isFirstElement = True, expectingKey = False, inputLength = int (length jsonStr)\<rparr>"

text \<open>
  \<^verbatim>\<open>Format\<close> returns the result and the error. Its arguments are the formatter, the
  input and what the decoder yields on that input. The builder of the parser is the
  local builder of \<^verbatim>\<open>Format\<close>, so \<^verbatim>\<open>builder.String()\<close> reads the parser's.
\<close>

definition Format :: "Formatter \<Rightarrow> string \<Rightarrow> token list \<Rightarrow> stream_end \<Rightarrow> string \<times> error option" where
  "Format f jsonStr tokens e =
     (if jsonStr = [] then ([], Some (NewFormatError ''input JSON string is empty''))
      else case formatLoop (newParser f jsonStr) 0 tokens e of
        Returned result err \<Rightarrow> (result, err)
      | Panicked r \<Rightarrow> recoverPanic r
      | Finished p tokenCount \<Rightarrow>
          if depth p \<noteq> 0 then
            ([], Some (NewFormatError ''malformed JSON: unclosed objects or arrays''))
          else if tokenCount = 0 then
            ([], Some (NewFormatError ''input contains no valid JSON tokens''))
          else (case builder p of Some b \<Rightarrow> b | None \<Rightarrow> [], None))"

definition FormatBytes :: "Formatter \<Rightarrow> string \<Rightarrow> token list \<Rightarrow> stream_end \<Rightarrow> string option \<times> error option" where
  "FormatBytes f jsonBytes tokens e =
     (case Format f jsonBytes tokens e of
        (formatted, Some err) \<Rightarrow> (None, Some err)
      | (formatted, None) \<Rightarrow> (Some formatted, None))"

section \<open>Notions used by the properties\<close>

abbreviation dq :: string where "dq \<equiv> [CHR 0x22]"
abbreviation nl :: string where "nl \<equiv> [CHR 0x0A]"

text \<open>
  The input \<^verbatim>\<open>{"a":[{"b":1},{"c":2}]}\<close> and the tokens the decoder yields on it.
\<close>

definition c1_input :: string where
  "c1_input = ''{'' @ dq @ ''a'' @ dq @ '':[{'' @ dq @ ''b'' @ dq @ '':1},{''
                @ dq @ ''c'' @ dq @ '':2}]}''"

definition c1_tokens :: "token list" where
  "c1_tokens =
     [Delim CHR ''{'', String ''a'', Delim CHR ''['',
      Delim CHR ''{'', String ''b'', Float64 (Finite ''1''), Delim CHR ''}'',
      Delim CHR ''{'', String ''c'', Float64 (Finite ''2''), Delim CHR ''}'',
      Delim CHR '']'', Delim CHR ''}'']"

text \<open>
  The input \<^verbatim>\<open>{"a":{"x":1},"b":2}\<close> and the tokens the decoder yields on it.
\<close>

definition c2_input :: string where
  "c2_input = ''{'' @ dq @ ''a'' @ dq @ '':{'' @ dq @ ''x'' @ dq @ '':1},''
                @ dq @ ''b'' @ dq @ '':2}''"

definition c2_tokens :: "token list" where
  "c2_tokens =
     [Delim CHR ''{'', String ''a'',
      Delim CHR ''{'', String ''x'', Float64 (Finite ''1''), Delim CHR ''}'',
      String ''b'', Float64 (Finite ''2''), Delim CHR ''}'']"

text \<open>The options that the package itself provides.\<close>

definition standardOption :: "ConfigOption \<Rightarrow> bool" where
  "standardOption option =
     ((\<exists>n. option = WithIndentSize n) \<or> option = WithTabs \<or> option = WithSpaces
      \<or> (\<exists>d. option = WithCompactDepth d))"

text \<open>
  The indentation of a nesting depth: that many tabs, or that many times
  \<^verbatim>\<open>IndentSize\<close> spaces.
\<close>

definition indentation :: "Config \<Rightarrow> int \<Rightarrow> string" where
  "indentation c d =
     (if UseTab c then replicate (nat d) (CHR 0x09)
      else replicate (nat (d * IndentSize c)) CHR '' '')"

text \<open>The input \<^verbatim>\<open>[1]\<close> as tokens.\<close>

definition c3_tokens :: "token list" where
  "c3_tokens = [Delim CHR ''['', Float64 (Finite ''1''), Delim CHR '']'']"

text \<open>
  Parser states for the examples: inside an object at depth 3, and inside nested arrays
  at a given depth with a given configuration.
\<close>

definition c3_object :: TokenParser where
  "c3_object = \<lparr>depth = 3, inArray = [False, True, False], builder = Some ''{'',
      config = Some DefaultConfig, isFirstElement = True, expectingKey = True,
      inputLength = 0\<rparr>"



text \<open>
  The number of characters of a UTF-8 string: its bytes that are not continuation
  bytes. \<open>wideString\<close> is 400,000 times a character of three bytes.
\<close>

definition runeCount :: "string \<Rightarrow> nat" where
  "runeCount s = length (filter (\<lambda>b. \<not> continuation (of_char b)) s)"

definition wideString :: string where
  "wideString = concat (replicate 400000 [CHR 0xE3, CHR 0x81, CHR 0x82])"

text \<open>A text without the characters \<open><\<close>, \<open>>\<close> and \<open>&\<close>.\<close>

definition htmlFree :: "string \<Rightarrow> bool" where
  "htmlFree s = (CHR ''<'' \<notin> set s \<and> CHR ''>'' \<notin> set s \<and> CHR ''&'' \<notin> set s)"

text \<open>
  A parser that has just opened an object and expects its first key; and the input
  \<^verbatim>\<open>{"a<b":"\<dots>&>"}\<close>, whose value starts with a character of three bytes, as text
  and as tokens.
\<close>

definition c10_key :: TokenParser where
  "c10_key = \<lparr>depth = 1, inArray = [False], builder = Some ''{'',
      config = Some DefaultConfig, isFirstElement = True, expectingKey = True,
      inputLength = 0\<rparr>"

definition c10_tokens :: "token list" where
  "c10_tokens =
     [Delim CHR ''{'', String ''a<b'', String ([CHR 0xE3, CHR 0x81, CHR 0x82] @ ''&>''),
      Delim CHR ''}'']"

definition c10_input :: string where
  "c10_input = ''{'' @ dq @ ''a<b'' @ dq @ '':'' @ dq @ [CHR 0xE3, CHR 0x81, CHR 0x82] @ ''&>''
                 @ dq @ ''}''"

text \<open>
  The invariant of the depth and the stack, and what a step leaves as it is when it
  only writes to the builder.
\<close>

definition depthInvariant :: "TokenParser \<Rightarrow> bool" where
  "depthInvariant p = (int (length (inArray p)) = depth p \<and> 0 \<le> depth p \<and> depth p \<le> 100)"

definition unchanged :: "TokenParser \<Rightarrow> TokenParser \<Rightarrow> bool" where
  "unchanged p p' =
     (depth p' = depth p \<and> inArray p' = inArray p \<and> config p' = config p
      \<and> isFirstElement p' = isFirstElement p \<and> expectingKey p' = expectingKey p
      \<and> (builder p \<noteq> None \<longrightarrow> builder p' \<noteq> None))"

text \<open>
  What a token adds to the nesting depth: an opening delimiter \<open>1\<close>, a closing one
  \<open>-1\<close>, any other token \<open>0\<close>.
\<close>

definition nestingDelta :: "token \<Rightarrow> int" where
  "nestingDelta t =
     (if t = Delim CHR ''{'' \<or> t = Delim CHR ''['' then 1
      else if t = Delim CHR ''}'' \<or> t = Delim CHR '']'' then - 1
      else 0)"

text \<open>
  The parser after the first four tokens of \<^verbatim>\<open>{"a":[{"b":1},{"c":2}]}\<close>.
\<close>

definition c4_state :: TokenParser where
  "c4_state = \<lparr>depth = 3, inArray = [False, True, False],
      builder = Some (''{'' @ nl @ ''  '' @ dq @ ''a'' @ dq @ '': ['' @ nl @ ''    {''),
      config = Some DefaultConfig, isFirstElement = True, expectingKey = True,
      inputLength = 23\<rparr>"

text \<open>
  The greatest nesting depth that a sequence of tokens reaches, counted from a starting
  depth; and the errors with which the depth guard rejects a token.
\<close>

fun maxNesting :: "int \<Rightarrow> token list \<Rightarrow> int" where
  "maxNesting d [] = d"
| "maxNesting d (t # ts) = max d (maxNesting (d + nestingDelta t) ts)"

definition depthGuardError :: "error \<Rightarrow> bool" where
  "depthGuardError err =
     (err = NewFormatError ''JSON structure too deeply nested (max depth: 100)''
      \<or> err = WrapFormatError ''failed to enter object state''
                (NewFormatError ''JSON structure too deeply nested (max depth: 100)'')
      \<or> err = WrapFormatError ''failed to enter array state''
                (NewFormatError ''JSON structure too deeply nested (max depth: 100)''))"

text \<open>
  Inputs of nested arrays: \<^verbatim>\<open>[[\<dots>]]\<close> of a given depth, as text and as tokens, and the
  parser inside that many arrays just opened.
\<close>

definition deepTokens :: "nat \<Rightarrow> token list" where
  "deepTokens k = replicate k (Delim CHR ''['') @ replicate k (Delim CHR '']'')"

definition deepInput :: "nat \<Rightarrow> string" where
  "deepInput k = replicate k CHR ''['' @ replicate k CHR '']''"

definition arrays :: "nat \<Rightarrow> string \<Rightarrow> Config \<Rightarrow> int \<Rightarrow> TokenParser" where
  "arrays d b c l =
     \<lparr>depth = int d, inArray = replicate d True, builder = Some b, config = Some c,
      isFirstElement = True, expectingKey = False, inputLength = l\<rparr>"

text \<open>
  The input \<^verbatim>\<open>{"a":{},"b":[[\<dots>]]}\<close> and the input \<^verbatim>\<open>{"a":[],"b":[[\<dots>]]}\<close>,
  each with 101 nested arrays; and the parser inside an object and that many arrays
  just opened.
\<close>

definition c6_input :: string where
  "c6_input = ''{'' @ dq @ ''a'' @ dq @ '':{},'' @ dq @ ''b'' @ dq @ '':'' @ deepInput 101 @ ''}''"

definition c6_tokens :: "token list" where
  "c6_tokens =
     [Delim CHR ''{'', String ''a'', Delim CHR ''{'', Delim CHR ''}'', String ''b'']
       @ deepTokens 101 @ [Delim CHR ''}'']"

definition c6_sibling_input :: string where
  "c6_sibling_input =
     ''{'' @ dq @ ''a'' @ dq @ '':[],'' @ dq @ ''b'' @ dq @ '':'' @ deepInput 101 @ ''}''"

definition c6_sibling_tokens :: "token list" where
  "c6_sibling_tokens =
     [Delim CHR ''{'', String ''a'', Delim CHR ''['', Delim CHR '']'', String ''b'']
       @ deepTokens 101 @ [Delim CHR ''}'']"

definition arraysIn :: "nat \<Rightarrow> string \<Rightarrow> Config \<Rightarrow> int \<Rightarrow> TokenParser" where
  "arraysIn d b c l =
     \<lparr>depth = int (Suc d), inArray = False # replicate d True, builder = Some b,
      config = Some c, isFirstElement = True, expectingKey = False, inputLength = l\<rparr>"

section \<open>Properties\<close>

text \<open>The definitions that evaluate the engine on a concrete input.\<close>

lemmas engine_defs =
  processToken_def handleDelimiter_def handleString_def handleNumber_def handleBoolean_def
  handleNull_def startObject_def endObject_def startArray_def endArray_def
  valueSeparator_def keySeparator_def commaSeparator_def afterValue_def
  writeNewlineAndIndent_def
  writeIndent_def wrapping_def andThen_def ok_def fail_def WriteString_def isInArray_def
  shouldFormatCompact_def enterObject_def exitObject_def enterArray_def exitArray_def
  escapeString_def json_Marshal_string_def escapeByte_def formatNumber_def
  json_Marshal_float64_def isNaN_def isInfinite_def strings_Repeat_def wrap64_def

lemma replicate_numeral: "replicate (numeral v) x = x # replicate (numeral v - 1) x"
  by (simp add: numeral_eq_Suc)

lemmas format_defs =
  Format_def newParser_def NewFormatter_def DefaultConfig_def recoverPanic_def
  NewFormatError_def WrapFormatError_def

subsection \<open>Format returns a result or an error\<close>

lemma formatLoop_Returned:
  "formatLoop p n ts e = Returned r err \<Longrightarrow> r = [] \<and> err \<noteq> None"
proof (induction ts arbitrary: p n)
  case Nil
  then show ?case by (cases e) auto
next
  case (Cons t ts)
  then show ?case
    by (auto split: if_splits prod.splits option.splits fault.splits)
qed

lemma recoverPanic_error: "\<exists>err. recoverPanic r = ([], Some err)"
  by (cases r) (auto simp: recoverPanic_def)

text \<open>
  Claim C7. For every formatter, input and token stream, \<^verbatim>\<open>Format\<close> returns either a
  result with no error, or an error with the empty result; the empty input is one of
  the error cases, and \<^verbatim>\<open>FormatBytes\<close> returns either bytes and no error or no
  bytes and an error.
\<close>

theorem Format_result_or_error:
  "((\<exists>result. Format f jsonStr tokens e = (result, None))
      \<or> (\<exists>err. Format f jsonStr tokens e = ([], Some err)))
   \<and> Format f [] tokens e = ([], Some (NewFormatError ''input JSON string is empty''))
   \<and> ((\<exists>result. FormatBytes f jsonStr tokens e = (Some result, None))
      \<or> (\<exists>err. FormatBytes f jsonStr tokens e = (None, Some err)))"
proof -
  have main: "(\<exists>result. Format f jsonStr tokens e = (result, None))
      \<or> (\<exists>err. Format f jsonStr tokens e = ([], Some err))"
  proof (cases "jsonStr = []")
    case True
    then show ?thesis by (simp add: Format_def)
  next
    case False
    show ?thesis
    proof (cases "formatLoop (newParser f jsonStr) 0 tokens e")
      case (Returned r err)
      with formatLoop_Returned [OF Returned] False show ?thesis
        by (auto simp: Format_def)
    next
      case (Panicked v)
      with recoverPanic_error [of v] False show ?thesis
        by (auto simp: Format_def)
    next
      case (Finished p n)
      with False show ?thesis by (auto simp: Format_def)
    qed
  qed
  have empty: "Format f [] tokens e = ([], Some (NewFormatError ''input JSON string is empty''))"
    by (simp add: Format_def)
  have bytes: "(\<exists>result. FormatBytes f jsonStr tokens e = (Some result, None))
      \<or> (\<exists>err. FormatBytes f jsonStr tokens e = (None, Some err))"
    using main by (auto simp: FormatBytes_def)
  from main empty bytes show ?thesis by blast
qed

subsection \<open>The layout of an array that is the value of a key\<close>

lemma Format_c1:
  "Format (NewFormatter (Some DefaultConfig)) c1_input c1_tokens EOF =
     (''{'' @ nl @
      ''  '' @ dq @ ''a'' @ dq @ '': ['' @ nl @
      ''    {'' @ dq @ ''b'' @ dq @ '': 1},'' @ nl @
      ''    {'' @ dq @ ''c'' @ dq @ '': 2}'' @ nl @
      ''  ]'' @ nl @
      ''}'', None)"
  by (simp add: c1_input_def c1_tokens_def format_defs engine_defs replicate_numeral)

text \<open>
  Claim C1, as amended. With the default configuration the input
  \<^verbatim>\<open>{"a":[{"b":1},{"c":2}]}\<close> is formatted without error: the opening bracket of
  the array follows the key on the same line, after the colon and one space, and
  the two inner objects are each on one line.
\<close>

theorem Format_array_after_key:
  "Format (NewFormatter (Some DefaultConfig)) c1_input c1_tokens EOF =
     (''{'' @ nl @
      ''  '' @ dq @ ''a'' @ dq @ '': ['' @ nl @
      ''    {'' @ dq @ ''b'' @ dq @ '': 1},'' @ nl @
      ''    {'' @ dq @ ''c'' @ dq @ '': 2}'' @ nl @
      ''  ]'' @ nl @
      ''}'', None)"
  by (rule Format_c1)

text \<open>
  Claim C1 as stated fails. The output that it gives, with the key line ending in a space and the
  bracket on a line of its own, is not what \<^verbatim>\<open>Format\<close> returns.
\<close>

theorem Format_array_after_key_counterexample:
  "Format (NewFormatter (Some DefaultConfig)) c1_input c1_tokens EOF \<noteq>
     (''{'' @ nl @
      ''  '' @ dq @ ''a'' @ dq @ '': '' @ nl @
      ''  ['' @ nl @
      ''    {'' @ dq @ ''b'' @ dq @ '': 1},'' @ nl @
      ''    {'' @ dq @ ''c'' @ dq @ '': 2}'' @ nl @
      ''  ]'' @ nl @
      ''}'', None)"
  by (simp add: Format_c1)

subsection \<open>A key after a nested object\<close>

lemma endObject_expectingKey:
  "endObject p = (p', None) \<Longrightarrow> \<not> expectingKey p'"
  by (auto simp: endObject_def andThen_def wrapping_def exitObject_def fail_def ok_def
        writeNewlineAndIndent_def writeIndent_def WriteString_def Let_def
        split: if_splits option.splits prod.splits fault.splits sum.splits)

text \<open>
  Claim C2 fails on the code. On \<^verbatim>\<open>{"a":{"x":1},"b":2}\<close> the engine has, after the
  closing brace of the inner object, depth 1 inside an object and does not expect a
  key; \<^verbatim>\<open>"b"\<close> is then taken as a value, and the number after it is rejected.
\<close>

theorem Format_sibling_key_rejected:
  "(case formatLoop (newParser (NewFormatter (Some DefaultConfig)) c2_input) 0
           (take 6 c2_tokens) EOF of
      Finished p n \<Rightarrow> depth p = 1 \<and> \<not> isInArray p \<and> \<not> expectingKey p
    | _ \<Rightarrow> False)
   \<and> Format (NewFormatter (Some DefaultConfig)) c2_input c2_tokens EOF =
       ([], Some (NewFormatError ''malformed JSON: unexpected number, expected object key''))"
  by (simp add: c2_input_def c2_tokens_def format_defs engine_defs replicate_numeral)

subsection \<open>Building a configuration\<close>

lemma standardOption_valid:
  "standardOption option \<Longrightarrow> validateConfig (Some c) = None
   \<Longrightarrow> validateConfig (Some (option c)) = None"
  by (auto simp: standardOption_def validateConfig_def WithIndentSize_def WithTabs_def
        WithSpaces_def WithCompactDepth_def split: if_splits)

lemma foldl_standardOption_valid:
  "list_all standardOption options \<Longrightarrow> validateConfig (Some c) = None
   \<Longrightarrow> validateConfig (Some (foldl (\<lambda>c option. option c) c options)) = None"
  by (induction options arbitrary: c) (auto simp: standardOption_valid)

lemma validateConfig_None:
  "(validateConfig (Some c) = None) =
     (0 \<le> IndentSize c \<and> IndentSize c \<le> 20 \<and> 0 \<le> CompactDepth c)"
  by (auto simp: validateConfig_def)

lemma validateConfig_DefaultConfig: "validateConfig (Some DefaultConfig) = None"
  by (simp add: validateConfig_def DefaultConfig_def)

text \<open>
  Claim C9. \<^verbatim>\<open>NewConfig\<close> starts from the default configuration
  \<open>{IndentSize: 2, UseTab: false, CompactDepth: 3}\<close> and applies the options in
  order, a later option working on what the earlier ones left. \<^verbatim>\<open>WithIndentSize(n)\<close>
  leaves the configuration as it is when \<open>n < 0\<close> or \<open>n > 20\<close>. The result is
  what the options produced if that is valid, and the default configuration otherwise;
  the package's own options always produce a valid one. In every case the result is a
  configuration (not \<^verbatim>\<open>nil\<close>) with \<open>0 \<le> IndentSize \<le> 20\<close> and
  \<open>CompactDepth \<ge> 0\<close>.
\<close>

theorem NewConfig_valid:
  "NewConfig [] = Some DefaultConfig
   \<and> DefaultConfig = \<lparr>IndentSize = 2, UseTab = False, CompactDepth = 3\<rparr>
   \<and> NewConfig options =
       (let c = foldl (\<lambda>c option. option c) DefaultConfig options
        in if 0 \<le> IndentSize c \<and> IndentSize c \<le> 20 \<and> 0 \<le> CompactDepth c then Some c
           else Some DefaultConfig)
   \<and> foldl (\<lambda>c option. option c) DefaultConfig (options @ [option])
       = option (foldl (\<lambda>c option. option c) DefaultConfig options)
   \<and> (n < 0 \<or> 20 < n \<longrightarrow> WithIndentSize n c = c)
   \<and> (0 \<le> n \<and> n \<le> 20 \<longrightarrow> WithIndentSize n c = c\<lparr>IndentSize := n\<rparr>)
   \<and> (list_all standardOption options \<longrightarrow>
        NewConfig options = Some (foldl (\<lambda>c option. option c) DefaultConfig options))
   \<and> (\<exists>r. NewConfig options = Some r
          \<and> 0 \<le> IndentSize r \<and> IndentSize r \<le> 20 \<and> 0 \<le> CompactDepth r)"
proof -
  let ?c = "foldl (\<lambda>c option. option c) DefaultConfig options"
  have unfolded: "NewConfig options =
       (let c = ?c
        in if 0 \<le> IndentSize c \<and> IndentSize c \<le> 20 \<and> 0 \<le> CompactDepth c then Some c
           else Some DefaultConfig)"
    by (cases "validateConfig (Some ?c)")
       (auto simp: NewConfig_def Let_def validateConfig_None [symmetric])
  have empty: "NewConfig [] = Some DefaultConfig"
    by (simp add: NewConfig_def validateConfig_DefaultConfig)
  have standard: "list_all standardOption options \<longrightarrow> NewConfig options = Some ?c"
    using foldl_standardOption_valid [of options DefaultConfig]
    by (auto simp: NewConfig_def Let_def validateConfig_DefaultConfig)
  have valid: "\<exists>r. NewConfig options = Some r
          \<and> 0 \<le> IndentSize r \<and> IndentSize r \<le> 20 \<and> 0 \<le> CompactDepth r"
    unfolding unfolded by (simp add: Let_def DefaultConfig_def)
  have size_ignored: "n < 0 \<or> 20 < n \<longrightarrow> WithIndentSize n c = c"
    by (auto simp: WithIndentSize_def)
  have size_set: "0 \<le> n \<and> n \<le> 20 \<longrightarrow> WithIndentSize n c = c\<lparr>IndentSize := n\<rparr>"
    by (simp add: WithIndentSize_def)
  show ?thesis
    using unfolded empty standard valid size_ignored size_set
    by (simp add: DefaultConfig_def)
qed

theorem NewConfig_valid_witness:
  "NewConfig [WithIndentSize 4, WithIndentSize 25, WithTabs, WithCompactDepth 2, WithIndentSize 8]
     = Some \<lparr>IndentSize = 8, UseTab = True, CompactDepth = 2\<rparr>
   \<and> NewConfig [WithIndentSize 4, (\<lambda>c. c\<lparr>CompactDepth := - 1\<rparr>)] = Some DefaultConfig
   \<and> WithIndentSize 25 DefaultConfig = DefaultConfig
   \<and> WithIndentSize 20 DefaultConfig = DefaultConfig\<lparr>IndentSize := 20\<rparr>"
proof -
  let ?std = "[WithIndentSize 4, WithIndentSize 25, WithTabs, WithCompactDepth 2,
               WithIndentSize 8]"
  have std: "list_all standardOption ?std"
    by (auto simp: standardOption_def)
  have "list_all standardOption ?std \<longrightarrow>
          NewConfig ?std = Some (foldl (\<lambda>c option. option c) DefaultConfig ?std)"
    using NewConfig_valid [of ?std WithSpaces 25 DefaultConfig] by blast
  with std have first: "NewConfig ?std = Some \<lparr>IndentSize = 8, UseTab = True, CompactDepth = 2\<rparr>"
    by (simp add: WithIndentSize_def WithTabs_def WithCompactDepth_def DefaultConfig_def)
  let ?bad = "[WithIndentSize 4, (\<lambda>c. c\<lparr>CompactDepth := - 1\<rparr>)]"
  have "NewConfig ?bad =
       (let c = foldl (\<lambda>c option. option c) DefaultConfig ?bad
        in if 0 \<le> IndentSize c \<and> IndentSize c \<le> 20 \<and> 0 \<le> CompactDepth c then Some c
           else Some DefaultConfig)"
    using NewConfig_valid [of ?bad WithSpaces 25 DefaultConfig] by blast
  then have second: "NewConfig ?bad = Some DefaultConfig"
    by (simp add: WithIndentSize_def DefaultConfig_def)
  have "(25::int) < 0 \<or> 20 < (25::int) \<longrightarrow> WithIndentSize 25 DefaultConfig = DefaultConfig"
    using NewConfig_valid [of ?bad WithSpaces 25 DefaultConfig] by blast
  then have third: "WithIndentSize 25 DefaultConfig = DefaultConfig"
    by simp
  have "(0::int) \<le> 20 \<and> (20::int) \<le> 20 \<longrightarrow>
          WithIndentSize 20 DefaultConfig = DefaultConfig\<lparr>IndentSize := 20\<rparr>"
    using NewConfig_valid [of ?bad WithSpaces 20 DefaultConfig] by blast
  then have fourth: "WithIndentSize 20 DefaultConfig = DefaultConfig\<lparr>IndentSize := 20\<rparr>"
    by simp
  from first second third fourth show ?thesis by blast
qed

subsection \<open>The width of the indentation\<close>










subsection \<open>The decision to render compactly\<close>

lemma endObject_output:
  assumes "builder p = Some b" "endObject p = (p', None)"
  shows "if shouldFormatCompact p then builder p' = Some (b @ ''}'')
         else \<exists>ind. builder p' = Some (b @ nl @ ind @ ''}'')"
  using assms
  by (auto simp: endObject_def andThen_def wrapping_def exitObject_def fail_def ok_def
        writeNewlineAndIndent_def writeIndent_def WriteString_def Let_def strings_Repeat_def
        shouldFormatCompact_def
        split: if_splits option.splits prod.splits fault.splits sum.splits)

lemma endArray_output:
  assumes "builder p = Some b" "endArray p = (p', None)"
  shows "if shouldFormatCompact p then builder p' = Some (b @ '']'')
         else \<exists>ind. builder p' = Some (b @ nl @ ind @ '']'')"
  using assms
  by (auto simp: endArray_def andThen_def wrapping_def exitArray_def fail_def ok_def
        writeNewlineAndIndent_def writeIndent_def WriteString_def Let_def strings_Repeat_def
        shouldFormatCompact_def
        split: if_splits option.splits prod.splits fault.splits sum.splits)

text \<open>
  Claim C3, as amended. \<^verbatim>\<open>shouldFormatCompact\<close> is the predicate
  \<open>CompactDepth > 0 \<and> depth \<ge> CompactDepth\<close>, and it decides how a container is
  closed: the closing delimiter alone when it holds at the depth of the container, a
  newline and the indentation before it otherwise. With \<open>CompactDepth = 0\<close> it never
  holds. Between two positive thresholds it is monotone: what is compact under the
  larger threshold is compact under the smaller one.
\<close>

theorem shouldFormatCompact_threshold:
  assumes "config p = Some c" and "builder p = Some b"
  shows "shouldFormatCompact p = (0 < CompactDepth c \<and> CompactDepth c \<le> depth p)
     \<and> (CompactDepth c = 0 \<longrightarrow> \<not> shouldFormatCompact p)
     \<and> (0 < k \<and> k \<le> CompactDepth c \<and> shouldFormatCompact p \<longrightarrow>
          shouldFormatCompact (p\<lparr>config := Some (c\<lparr>CompactDepth := k\<rparr>)\<rparr>))
     \<and> (endObject p = (p', None) \<longrightarrow>
          (if shouldFormatCompact p then builder p' = Some (b @ ''}'')
           else \<exists>ind. builder p' = Some (b @ nl @ ind @ ''}'')))
     \<and> (endArray p = (p'', None) \<longrightarrow>
          (if shouldFormatCompact p then builder p'' = Some (b @ '']'')
           else \<exists>ind. builder p'' = Some (b @ nl @ ind @ '']'')))"
proof -
  have predicate: "shouldFormatCompact p = (0 < CompactDepth c \<and> CompactDepth c \<le> depth p)"
    using assms by (simp add: shouldFormatCompact_def)
  have monotone: "0 < k \<and> k \<le> CompactDepth c \<and> shouldFormatCompact p \<longrightarrow>
          shouldFormatCompact (p\<lparr>config := Some (c\<lparr>CompactDepth := k\<rparr>)\<rparr>)"
    using assms by (simp add: shouldFormatCompact_def)
  have disabled: "CompactDepth c = 0 \<longrightarrow> \<not> shouldFormatCompact p"
    using assms by (simp add: shouldFormatCompact_def)
  have object: "endObject p = (p', None) \<longrightarrow>
          (if shouldFormatCompact p then builder p' = Some (b @ ''}'')
           else \<exists>ind. builder p' = Some (b @ nl @ ind @ ''}''))"
    using endObject_output [OF assms(2), of p'] by blast
  have array: "endArray p = (p'', None) \<longrightarrow>
          (if shouldFormatCompact p then builder p'' = Some (b @ '']'')
           else \<exists>ind. builder p'' = Some (b @ nl @ ind @ '']''))"
    using endArray_output [OF assms(2), of p''] by blast
  from predicate disabled monotone object array show ?thesis
    by (intro conjI)
qed

theorem shouldFormatCompact_threshold_witness:
  "shouldFormatCompact c3_object
   \<and> shouldFormatCompact (c3_object\<lparr>config := Some (DefaultConfig\<lparr>CompactDepth := 2\<rparr>)\<rparr>)
   \<and> endObject c3_object = (c3_object\<lparr>depth := 2, inArray := [False, True], builder := Some ''{}'', expectingKey := False\<rparr>, None)"
proof -
  have c: "config c3_object = Some DefaultConfig" and b: "builder c3_object = Some ''{''"
    by (simp_all add: c3_object_def)
  have e: "endObject c3_object = (c3_object\<lparr>depth := 2, inArray := [False, True], builder := Some ''{}'', expectingKey := False\<rparr>, None)"
    by (simp add: c3_object_def DefaultConfig_def engine_defs)
  from shouldFormatCompact_threshold [OF c b, of 2
         "c3_object\<lparr>depth := 2, inArray := [False, True], builder := Some ''{}'', expectingKey := False\<rparr>"]
  have "shouldFormatCompact c3_object = (0 < CompactDepth DefaultConfig \<and> CompactDepth DefaultConfig \<le> depth c3_object)"
    and "0 < (2::int) \<and> 2 \<le> CompactDepth DefaultConfig \<and> shouldFormatCompact c3_object \<longrightarrow>
          shouldFormatCompact (c3_object\<lparr>config := Some (DefaultConfig\<lparr>CompactDepth := 2\<rparr>)\<rparr>)"
    by blast+
  then have "shouldFormatCompact c3_object"
    and "shouldFormatCompact (c3_object\<lparr>config := Some (DefaultConfig\<lparr>CompactDepth := 2\<rparr>)\<rparr>)"
    by (simp_all add: c3_object_def DefaultConfig_def)
  with e show ?thesis by blast
qed

text \<open>
  Claim C3 as stated fails. Raising \<^verbatim>\<open>CompactDepth\<close> from 0 to 1 makes a container
  compact that was not:
  \<^verbatim>\<open>[1]\<close> is spread over three lines with the threshold 0 and is on one line
  with the threshold 1.
\<close>

theorem shouldFormatCompact_threshold_counterexample:
  "Format (Formatter (Some (DefaultConfig\<lparr>CompactDepth := 0\<rparr>))) ''[1]'' c3_tokens EOF
     = (''['' @ nl @ ''  1'' @ nl @ '']'', None)
   \<and> Format (Formatter (Some (DefaultConfig\<lparr>CompactDepth := 1\<rparr>))) ''[1]'' c3_tokens EOF
     = (''[1]'', None)
   \<and> \<not> shouldFormatCompact ((newParser (Formatter (Some (DefaultConfig\<lparr>CompactDepth := 0\<rparr>))) ''[1]'')\<lparr>depth := 1\<rparr>)
   \<and> shouldFormatCompact ((newParser (Formatter (Some (DefaultConfig\<lparr>CompactDepth := 1\<rparr>))) ''[1]'')\<lparr>depth := 1\<rparr>)"
  by (simp add: c3_tokens_def format_defs engine_defs replicate_numeral)

subsection \<open>The guard on the length of a string\<close>

lemma runeCount_le: "runeCount s \<le> length s"
  by (simp add: runeCount_def)

lemma length_concat_replicate: "length (concat (replicate n xs)) = n * length xs"
  by (induction n) auto

lemma runeCount_concat_replicate: "runeCount (concat (replicate n xs)) = n * runeCount xs"
  by (induction n) (auto simp: runeCount_def)

lemma length_wideString: "length wideString = 1200000"
  by (simp add: wideString_def length_concat_replicate)

lemma runeCount_wideString: "runeCount wideString = 400000"
proof -
  have "runeCount [CHR 0xE3, CHR 0x81, CHR 0x82] = 1"
    by (simp add: runeCount_def continuation_def)
  then show ?thesis
    by (simp add: wideString_def runeCount_concat_replicate)
qed

lemma escapeString_ok:
  "length v \<le> 1000000 \<Longrightarrow> escapeString v = Inr (appendStringBody v)"
  by (simp add: escapeString_def json_Marshal_string_def)

lemma handleString_too_large:
  "1000000 < length v \<Longrightarrow> \<exists>e. handleString p v = (p, Some (Err e))"
  by (simp add: handleString_def fail_def)

lemma writeNewlineAndIndent_error:
  "writeNewlineAndIndent p = (p', Some (Err e)) \<Longrightarrow>
     e = NewFormatError ''invalid parser state: builder is nil''
     \<or> (\<exists>e'. e = WrapFormatError ''failed to write indentation after newline'' e')"
  by (auto simp: writeNewlineAndIndent_def wrapping_def fail_def
        split: if_splits option.splits prod.splits fault.splits)


lemma handleString_errors:
  assumes "length v \<le> 1000000" and "handleString p v = (p', Some (Err e))"
  shows "e = NewFormatError ''invalid parser state: builder is nil''
     \<or> e = NewFormatError ''invalid parser state: config is nil''
     \<or> e = NewFormatError ''malformed JSON: unexpected object key outside of object context''
     \<or> (\<exists>e'. e = WrapFormatError ''failed to write newline and indent'' e'
            \<and> (e' = NewFormatError ''invalid parser state: builder is nil''
                \<or> (\<exists>e''. e' = WrapFormatError ''failed to write indentation after newline'' e'')))"
  using assms escapeString_ok [OF assms(1)]
  by (auto simp: handleString_def commaSeparator_def valueSeparator_def keySeparator_def
        andThen_def wrapping_def fail_def ok_def Let_def
        dest!: writeNewlineAndIndent_error
        split: if_splits option.splits prod.splits fault.splits sum.splits)

text \<open>
  Claim C8, as amended. A string token of more than 1,000,000 bytes, as a key or as a
  value, is rejected: \<^verbatim>\<open>handleString\<close> returns an error and leaves the parser,
  and so the output, as it was; with a builder and a configuration the error is the one
  of the length guard. This covers every string of more than 1,000,000 characters. A
  string of at most 1,000,000 bytes is never rejected by the guard, neither by the one
  of \<^verbatim>\<open>handleString\<close> nor by the one of \<^verbatim>\<open>escapeString\<close>.
\<close>

theorem handleString_length_guard:
  "(1000000 < length v \<longrightarrow> (\<exists>e. handleString p v = (p, Some (Err e))))
   \<and> (1000000 < runeCount v \<longrightarrow> (\<exists>e. handleString p v = (p, Some (Err e))))
   \<and> (1000000 < length v \<and> builder p \<noteq> None \<and> config p \<noteq> None \<longrightarrow>
        handleString p v =
          (p, Some (Err (NewFormatError ''string value too large (exceeds 1MB limit)''))))
   \<and> (length v \<le> 1000000 \<longrightarrow>
        snd (handleString p v)
          \<noteq> Some (Err (NewFormatError ''string value too large (exceeds 1MB limit)''))
        \<and> (\<forall>m. snd (handleString p v)
          \<noteq> Some (Err (WrapFormatError m
                (NewFormatError ''string too large for escaping (exceeds 1MB limit)''))))
        \<and> (\<exists>escaped. escapeString v = Inr escaped))"
proof -
  have bytes: "1000000 < length v \<longrightarrow> (\<exists>e. handleString p v = (p, Some (Err e)))"
    using handleString_too_large by blast
  have runes: "1000000 < runeCount v \<longrightarrow> (\<exists>e. handleString p v = (p, Some (Err e)))"
    using handleString_too_large [of v p] runeCount_le [of v] by auto
  have guard: "1000000 < length v \<and> builder p \<noteq> None \<and> config p \<noteq> None \<longrightarrow>
        handleString p v =
          (p, Some (Err (NewFormatError ''string value too large (exceeds 1MB limit)'')))"
    by (simp add: handleString_def fail_def)
  have small: "snd (handleString p v)
          \<noteq> Some (Err (NewFormatError ''string value too large (exceeds 1MB limit)''))
        \<and> (\<forall>m. snd (handleString p v)
          \<noteq> Some (Err (WrapFormatError m
                (NewFormatError ''string too large for escaping (exceeds 1MB limit)''))))
        \<and> (\<exists>escaped. escapeString v = Inr escaped)" if le: "length v \<le> 1000000"
  proof -
    obtain p' r where h: "handleString p v = (p', r)" by (cases "handleString p v")
    have "r \<noteq> Some (Err (NewFormatError ''string value too large (exceeds 1MB limit)''))"
      using handleString_errors [OF le, of p p'] h
      by (auto simp: NewFormatError_def WrapFormatError_def)
    moreover have "r \<noteq> Some (Err (WrapFormatError m
                (NewFormatError ''string too large for escaping (exceeds 1MB limit)'')))" for m
      using handleString_errors [OF le, of p p'] h
      by (auto simp: NewFormatError_def WrapFormatError_def)
    ultimately show ?thesis
      using h escapeString_ok [OF le] by simp
  qed
  from bytes runes guard small show ?thesis by blast
qed

theorem handleString_length_guard_witness:
  "handleString (newParser (NewFormatter (Some DefaultConfig)) ''x'') wideString =
     (newParser (NewFormatter (Some DefaultConfig)) ''x'',
      Some (Err (NewFormatError ''string value too large (exceeds 1MB limit)'')))
   \<and> snd (handleString (newParser (NewFormatter (Some DefaultConfig)) ''x'') ''abc'')
        \<noteq> Some (Err (NewFormatError ''string value too large (exceeds 1MB limit)''))"
proof -
  let ?p = "newParser (NewFormatter (Some DefaultConfig)) ''x''"
  have "1000000 < length wideString \<and> builder ?p \<noteq> None \<and> config ?p \<noteq> None"
    by (simp add: length_wideString newParser_def NewFormatter_def)
  with handleString_length_guard [of wideString ?p]
  have first: "handleString ?p wideString =
     (?p, Some (Err (NewFormatError ''string value too large (exceeds 1MB limit)'')))"
    by blast
  have "length ''abc'' \<le> 1000000" by simp
  with handleString_length_guard [of "''abc''" ?p]
  have second: "snd (handleString ?p ''abc'')
        \<noteq> Some (Err (NewFormatError ''string value too large (exceeds 1MB limit)''))"
    by blast
  from first second show ?thesis by blast
qed

text \<open>
  Claim C8 as stated fails. The guard counts bytes, not characters: a string of 400,000
  characters, each of three bytes, is rejected.
\<close>

theorem handleString_length_guard_counterexample:
  "runeCount wideString \<le> 1000000
   \<and> handleString (newParser (NewFormatter (Some DefaultConfig)) ''x'') wideString =
     (newParser (NewFormatter (Some DefaultConfig)) ''x'',
      Some (Err (NewFormatError ''string value too large (exceeds 1MB limit)'')))"
  by (simp add: runeCount_wideString handleString_def length_wideString fail_def
        newParser_def NewFormatter_def)

subsection \<open>The escapes of the characters of HTML\<close>

lemma htmlFree_simps [simp]:
  "htmlFree []"
  "htmlFree (x # xs) = (x \<noteq> CHR ''<'' \<and> x \<noteq> CHR ''>'' \<and> x \<noteq> CHR ''&'' \<and> htmlFree xs)"
  "htmlFree (xs @ ys) = (htmlFree xs \<and> htmlFree ys)"
  by (auto simp: htmlFree_def)

lemma htmlFree_replicate:
  "htmlFree (replicate n x) = (n = 0 \<or> (x \<noteq> CHR ''<'' \<and> x \<noteq> CHR ''>'' \<and> x \<noteq> CHR ''&''))"
  by (induction n) auto

lemma htmlFree_concat_replicate: "htmlFree xs \<Longrightarrow> htmlFree (concat (replicate n xs))"
  by (induction n) auto

lemma htmlFree_hex: "htmlFree [hex n]"
proof -
  have "n mod 16 < length ''0123456789abcdef''" by simp
  then have "hex n \<in> set ''0123456789abcdef''"
    unfolding hex_def by (rule nth_mem)
  then show ?thesis by auto
qed

lemma htmlFree_escapeByte: "htmlFree (escapeByte b)"
  using htmlFree_hex [of "of_char b div 16"] htmlFree_hex [of "of_char b mod 16"]
  by (simp add: escapeByte_def)

lemma htmlFree_high_bytes:
  "\<forall>x\<in>set xs. (0x80::nat) \<le> of_char x \<Longrightarrow> htmlFree xs"
  by (induction xs) auto

lemma decodeSize_take:
  "decodeSize (map of_char xs) = n \<Longrightarrow> 0 < n \<Longrightarrow> \<forall>x\<in>set (take n xs). (0x80::nat) \<le> of_char x"
  by (cases xs) (auto simp: continuation_def split: if_splits list.splits)

lemma htmlFree_appendStringBody: "htmlFree (appendStringBody s)"
proof (induction s rule: appendStringBody.induct)
  case 1
  show ?case by simp
next
  case (2 b bs)
  show ?case
  proof (cases "(of_char b :: nat) < 0x80")
    case True
    with 2 show ?thesis by (simp add: htmlFree_escapeByte)
  next
    case False
    let ?n = "decodeSize (map of_char (b # bs))"
    show ?thesis
    proof (cases "?n = 0")
      case True
      with False 2 show ?thesis by simp
    next
      case n: False
      then have "htmlFree (take ?n (b # bs))"
        using decodeSize_take [of "b # bs" ?n] by (intro htmlFree_high_bytes) simp
      with False n 2 show ?thesis by (simp add: Let_def)
    qed
  qed
qed

lemma htmlFree_escapeString: "escapeString s = Inr e \<Longrightarrow> htmlFree e"
  using htmlFree_appendStringBody [of s]
  by (auto simp: escapeString_def json_Marshal_string_def split: if_splits)

lemma writeIndent_htmlFree:
  "builder p = Some b \<Longrightarrow> writeIndent p = (p', r)
   \<Longrightarrow> \<exists>out. builder p' = Some (b @ out) \<and> htmlFree out"
  by (auto simp: writeIndent_def fail_def ok_def WriteString_def Let_def strings_Repeat_def
        htmlFree_replicate
        split: if_splits option.splits sum.splits)

lemma writeNewlineAndIndent_htmlFree:
  assumes "builder p = Some b" "writeNewlineAndIndent p = (p', r)"
  shows "\<exists>out. builder p' = Some (b @ out) \<and> htmlFree out"
proof -
  obtain q r' where w: "writeIndent (WriteString p nl) = (q, r')"
    by (cases "writeIndent (WriteString p nl)")
  have "builder (WriteString p nl) = Some (b @ nl)"
    using assms(1) by (simp add: WriteString_def)
  from writeIndent_htmlFree [OF this w]
  obtain out where "builder q = Some ((b @ nl) @ out)" "htmlFree out" by blast
  moreover have "p' = q"
    using assms w
    by (auto simp: writeNewlineAndIndent_def wrapping_def fail_def
          split: option.splits fault.splits)
  ultimately show ?thesis by auto
qed

lemma commaSeparator_htmlFree:
  assumes "builder p = Some b" "commaSeparator p = (p', r)"
  shows "\<exists>out. builder p' = Some (b @ out) \<and> htmlFree out"
proof (cases "shouldFormatCompact (WriteString p '','')")
  case True
  with assms show ?thesis
    by (auto simp: commaSeparator_def ok_def WriteString_def Let_def)
next
  case False
  obtain q r' where w: "writeNewlineAndIndent (WriteString p '','') = (q, r')"
    by (cases "writeNewlineAndIndent (WriteString p '','')")
  have "builder (WriteString p '','') = Some (b @ '','')"
    using assms(1) by (simp add: WriteString_def)
  from writeNewlineAndIndent_htmlFree [OF this w]
  obtain out where "builder q = Some ((b @ '','') @ out)" "htmlFree out" by blast
  moreover have "p' = q"
    using assms w False
    by (auto simp: commaSeparator_def wrapping_def Let_def split: option.splits fault.splits)
  ultimately show ?thesis by auto
qed

lemma valueSeparator_htmlFree:
  assumes "builder p = Some b" "valueSeparator p = (p', r)"
  shows "\<exists>out. builder p' = Some (b @ out) \<and> htmlFree out"
proof -
  consider (comma) "valueSeparator p = commaSeparator p"
    | (newline) "\<exists>r'. writeNewlineAndIndent p = (p', r')"
    | (nothing) "p' = p"
    using assms(2)
    by (cases "writeNewlineAndIndent p")
       (auto simp: valueSeparator_def wrapping_def ok_def
          split: if_splits option.splits fault.splits)
  then show ?thesis
  proof cases
    case comma
    with assms commaSeparator_htmlFree show ?thesis by simp
  next
    case newline
    with assms writeNewlineAndIndent_htmlFree show ?thesis by blast
  next
    case nothing
    with assms show ?thesis by simp
  qed
qed

lemma keySeparator_htmlFree:
  assumes "builder p = Some b" and "keySeparator p = (p', r)"
  shows "\<exists>out. builder p' = Some (b @ out) \<and> htmlFree out"
proof -
  consider (comma) "commaSeparator p = (p', r)"
    | (newline) "\<exists>r'. writeNewlineAndIndent p = (p', r')"
    | (nothing) "p' = p"
    using assms(2)
    by (cases "writeNewlineAndIndent p")
       (auto simp: keySeparator_def wrapping_def ok_def
          split: if_splits option.splits fault.splits)
  then show ?thesis
  proof cases
    case comma
    with assms commaSeparator_htmlFree show ?thesis by simp
  next
    case newline
    with assms writeNewlineAndIndent_htmlFree show ?thesis by blast
  next
    case nothing
    with assms show ?thesis by simp
  qed
qed

lemma handleString_htmlFree:
  assumes "builder p = Some b" "handleString p v = (p', r)"
  shows "\<exists>out. builder p' = Some (b @ out) \<and> htmlFree out"
proof -
  have same: ?thesis if "p' = p"
    using that assms(1) by simp
  show ?thesis
  proof (cases "builder p = None \<or> config p = None \<or> 1000000 < length v
                \<or> (expectingKey p \<and> (depth p = 0 \<or> isInArray p))")
    case True
    then have "p' = p"
      using assms(2) by (auto simp: handleString_def fail_def split: if_splits)
    then show ?thesis by (rule same)
  next
    case False
    then have le: "length v \<le> 1000000" by simp
    have esc: "escapeString v = Inr (appendStringBody v)"
      using le by (rule escapeString_ok)
    show ?thesis
    proof (cases "expectingKey p")
      case True
      obtain q rq where sep: "keySeparator p = (q, rq)"
        by (cases "keySeparator p")
      from keySeparator_htmlFree [OF assms(1) sep]
      obtain out where q: "builder q = Some (b @ out)" "htmlFree out" by blast
      show ?thesis
        using assms(2) False True sep q esc htmlFree_appendStringBody [of v]
        by (cases rq)
           (auto simp: handleString_def andThen_def ok_def WriteString_def Let_def
              split: if_splits)
    next
      case key: False
      obtain q rq where sep: "valueSeparator p = (q, rq)"
        by (cases "valueSeparator p")
      from valueSeparator_htmlFree [OF assms(1) sep]
      obtain out where q: "builder q = Some (b @ out)" "htmlFree out" by blast
      show ?thesis
        using assms(2) False key sep q esc htmlFree_appendStringBody [of v]
        by (cases rq)
           (auto simp: handleString_def andThen_def ok_def WriteString_def Let_def
              afterValue_def split: if_splits)
    qed
  qed
qed

lemma appendStringBody_ascii:
  "\<forall>b\<in>set s. (of_char b :: nat) < 0x80 \<Longrightarrow> appendStringBody s = concat (map escapeByte s)"
  by (induction s) auto

lemma escapeByte_html:
  "escapeByte CHR ''<'' = [CHR 0x5C] @ ''u003c''"
  "escapeByte CHR ''>'' = [CHR 0x5C] @ ''u003e''"
  "escapeByte CHR ''&'' = [CHR 0x5C] @ ''u0026''"
  by (simp_all add: escapeByte_def hex_def)

lemma decodeSize_ascii_tail:
  "c < 0x80 \<Longrightarrow> decodeSize (bs @ c # rest) = decodeSize bs"
  by (cases bs; cases "tl bs"; cases "tl (tl bs)"; cases "tl (tl (tl bs))")
     (auto simp: continuation_def split: list.splits)

lemma decodeSize_le_length: "decodeSize bs \<le> length bs"
  by (cases bs) (auto split: list.splits)

lemma take3_ascii_tail:
  assumes "(of_char c :: nat) < 0x80" "\<forall>x\<in>set zs. (0x80::nat) \<le> of_char x" "length zs = 3"
  shows "(take 3 (xs @ c # ys) = zs) = (take 3 xs = zs)"
proof (cases "3 \<le> length xs")
  case True
  then show ?thesis by simp
next
  case False
  then have short: "length xs < 3" by simp
  have "take 3 (xs @ c # ys) \<noteq> zs"
  proof
    assume eq: "take 3 (xs @ c # ys) = zs"
    have "c \<in> set (take 3 (xs @ c # ys))"
      using short by (simp add: take_Cons')
    with eq assms(2) have "(0x80::nat) \<le> of_char c" by auto
    with assms(1) show False by simp
  qed
  moreover have "take 3 xs \<noteq> zs"
    using short assms(3) by auto
  ultimately show ?thesis by simp
qed

lemma appendStringBody_ascii_split:
  assumes c: "(of_char c :: nat) < 0x80"
  shows "appendStringBody (xs @ c # ys) = appendStringBody xs @ escapeByte c @ appendStringBody ys"
proof (induction xs rule: length_induct)
  case (1 xs)
  show ?case
  proof (cases xs)
    case Nil
    with c show ?thesis by simp
  next
    case (Cons b bs)
    have ih: "appendStringBody (zs @ c # ys)
        = appendStringBody zs @ escapeByte c @ appendStringBody ys" if "length zs \<le> length bs" for zs
      using 1 that Cons by simp
    show ?thesis
    proof (cases "(of_char b :: nat) < 0x80")
      case True
      with Cons ih [of bs] show ?thesis by simp
    next
      case False
      define n where "n = decodeSize (map of_char (b # bs))"
      have n: "decodeSize (map of_char (b # bs @ c # ys)) = n"
        using decodeSize_ascii_tail [of "of_char c" "map of_char (b # bs)" "map of_char ys"] c
        unfolding n_def by simp
      have len: "n \<le> Suc (length bs)"
        using decodeSize_le_length [of "map of_char (b # bs)"] unfolding n_def by simp
      have ls: "(take 3 (b # bs @ c # ys) = [CHR 0xE2, CHR 0x80, CHR 0xA8])
          = (take 3 (b # bs) = [CHR 0xE2, CHR 0x80, CHR 0xA8])"
        using take3_ascii_tail [OF c, of "[CHR 0xE2, CHR 0x80, CHR 0xA8]" "b # bs" ys] by simp
      have ps: "(take 3 (b # bs @ c # ys) = [CHR 0xE2, CHR 0x80, CHR 0xA9])
          = (take 3 (b # bs) = [CHR 0xE2, CHR 0x80, CHR 0xA9])"
        using take3_ascii_tail [OF c, of "[CHR 0xE2, CHR 0x80, CHR 0xA9]" "b # bs" ys] by simp
      have d2: "drop 2 (bs @ c # ys) = drop 2 bs @ c # ys" if "take 3 (b # bs) = zs" "length zs = 3"
        for zs
      proof -
        from that have "2 \<le> length bs" by (cases bs; cases "tl bs") auto
        then show ?thesis by simp
      qed
      have long: "appendStringBody (b # bs @ c # ys) =
          (if n = 0 then [CHR 0x5C, CHR ''u'', CHR ''f'', CHR ''f'', CHR ''f'', CHR ''d'']
                          @ appendStringBody (bs @ c # ys)
           else if take 3 (b # bs) = [CHR 0xE2, CHR 0x80, CHR 0xA8] then
             [CHR 0x5C, CHR ''u'', CHR ''2'', CHR ''0'', CHR ''2'', CHR ''8'']
               @ appendStringBody (drop 2 (bs @ c # ys))
           else if take 3 (b # bs) = [CHR 0xE2, CHR 0x80, CHR 0xA9] then
             [CHR 0x5C, CHR ''u'', CHR ''2'', CHR ''0'', CHR ''2'', CHR ''9'']
               @ appendStringBody (drop 2 (bs @ c # ys))
           else take n (b # bs @ c # ys) @ appendStringBody (drop (n - 1) (bs @ c # ys)))"
        using False by (simp only: appendStringBody.simps(2) n ls ps if_False Let_def)
      have short: "appendStringBody (b # bs) =
          (if n = 0 then [CHR 0x5C, CHR ''u'', CHR ''f'', CHR ''f'', CHR ''f'', CHR ''d'']
                          @ appendStringBody bs
           else if take 3 (b # bs) = [CHR 0xE2, CHR 0x80, CHR 0xA8] then
             [CHR 0x5C, CHR ''u'', CHR ''2'', CHR ''0'', CHR ''2'', CHR ''8'']
               @ appendStringBody (drop 2 bs)
           else if take 3 (b # bs) = [CHR 0xE2, CHR 0x80, CHR 0xA9] then
             [CHR 0x5C, CHR ''u'', CHR ''2'', CHR ''0'', CHR ''2'', CHR ''9'']
               @ appendStringBody (drop 2 bs)
           else take n (b # bs) @ appendStringBody (drop (n - 1) bs))"
        using False unfolding n_def by (simp only: appendStringBody.simps(2) if_False Let_def)
      show ?thesis
      proof (cases "n = 0")
        case True
        have "appendStringBody (b # bs @ c # ys)
            = [CHR 0x5C, CHR ''u'', CHR ''f'', CHR ''f'', CHR ''f'', CHR ''d'']
                @ appendStringBody (bs @ c # ys)"
          using True by (simp only: long if_True simp_thms)
        moreover have "appendStringBody (b # bs)
            = [CHR 0x5C, CHR ''u'', CHR ''f'', CHR ''f'', CHR ''f'', CHR ''d'']
                @ appendStringBody bs"
          using True by (simp only: short if_True simp_thms)
        ultimately show ?thesis
          using ih [of bs] Cons by simp
      next
        case pos: False
        with len have tk: "take n (b # bs @ c # ys) = take n (b # bs)"
          and dr: "drop (n - 1) (bs @ c # ys) = drop (n - 1) bs @ c # ys"
          by (cases n; simp)+
        consider (ls) "take 3 (b # bs) = [CHR 0xE2, CHR 0x80, CHR 0xA8]"
          | (ps) "take 3 (b # bs) \<noteq> [CHR 0xE2, CHR 0x80, CHR 0xA8]"
                 "take 3 (b # bs) = [CHR 0xE2, CHR 0x80, CHR 0xA9]"
          | (other) "take 3 (b # bs) \<noteq> [CHR 0xE2, CHR 0x80, CHR 0xA8]"
                    "take 3 (b # bs) \<noteq> [CHR 0xE2, CHR 0x80, CHR 0xA9]"
          by blast
        then show ?thesis
        proof cases
          case ls
          have "appendStringBody (b # bs @ c # ys)
              = [CHR 0x5C, CHR ''u'', CHR ''2'', CHR ''0'', CHR ''2'', CHR ''8'']
                  @ appendStringBody (drop 2 bs @ c # ys)"
            using pos ls by (simp only: long d2 [OF ls] if_False if_True simp_thms list.size)
          moreover have "appendStringBody (b # bs)
              = [CHR 0x5C, CHR ''u'', CHR ''2'', CHR ''0'', CHR ''2'', CHR ''8'']
                  @ appendStringBody (drop 2 bs)"
            using pos ls by (simp only: short if_False if_True simp_thms)
          ultimately show ?thesis
            using ih [of "drop 2 bs"] Cons by simp
        next
          case ps
          have "appendStringBody (b # bs @ c # ys)
              = [CHR 0x5C, CHR ''u'', CHR ''2'', CHR ''0'', CHR ''2'', CHR ''9'']
                  @ appendStringBody (drop 2 bs @ c # ys)"
            using pos ps
            by (simp only: long d2 [OF ps(2)] if_False if_True simp_thms list.size)
          moreover have "appendStringBody (b # bs)
              = [CHR 0x5C, CHR ''u'', CHR ''2'', CHR ''0'', CHR ''2'', CHR ''9'']
                  @ appendStringBody (drop 2 bs)"
            using pos ps by (simp only: short if_False if_True simp_thms)
          ultimately show ?thesis
            using ih [of "drop 2 bs"] Cons by simp
        next
          case other
          have "appendStringBody (b # bs @ c # ys)
              = take n (b # bs) @ appendStringBody (drop (n - 1) bs @ c # ys)"
            using pos other by (simp only: long tk dr if_False simp_thms)
          moreover have "appendStringBody (b # bs)
              = take n (b # bs) @ appendStringBody (drop (n - 1) bs)"
            using pos other by (simp only: short if_False simp_thms)
          ultimately show ?thesis
            using ih [of "drop (n - 1) bs"] Cons by simp
        qed
      qed
    qed
  qed
qed

lemma handleString_key_output:
  assumes "builder p = Some b" "expectingKey p" "handleString p v = (p', None)"
  shows "\<exists>sep. htmlFree sep
           \<and> builder p' = Some (b @ sep @ dq @ appendStringBody v @ dq @ '':'')"
proof -
  from assms(3) have le: "length v \<le> 1000000"
    by (auto simp: handleString_def fail_def split: if_splits)
  have esc: "escapeString v = Inr (appendStringBody v)"
    using le by (rule escapeString_ok)
  obtain q rq where sep: "keySeparator p = (q, rq)" by (cases "keySeparator p")
  from keySeparator_htmlFree [OF assms(1) sep]
  obtain out where q: "builder q = Some (b @ out)" "htmlFree out" by blast
  from assms sep q esc have "builder p' = Some (b @ out @ dq @ appendStringBody v @ dq @ '':'')"
    by (cases rq)
       (auto simp: handleString_def andThen_def ok_def fail_def WriteString_def Let_def
          split: if_splits)
  with q(2) show ?thesis by blast
qed

lemma handleString_value_output:
  assumes "builder p = Some b" "\<not> expectingKey p" "handleString p v = (p', None)"
  shows "\<exists>sep. htmlFree sep
           \<and> builder p' = Some (b @ sep @ dq @ appendStringBody v @ dq)"
proof -
  from assms(3) have le: "length v \<le> 1000000"
    by (auto simp: handleString_def fail_def split: if_splits)
  have esc: "escapeString v = Inr (appendStringBody v)"
    using le by (rule escapeString_ok)
  obtain q rq where sep: "valueSeparator p = (q, rq)" by (cases "valueSeparator p")
  from valueSeparator_htmlFree [OF assms(1) sep]
  obtain out where q: "builder q = Some (b @ out)" "htmlFree out" by blast
  from assms sep q esc
  have "builder p' = Some (b @ (out @ '' '') @ dq @ appendStringBody v @ dq)
      \<or> builder p' = Some (b @ out @ dq @ appendStringBody v @ dq)"
    by (cases rq)
       (auto simp: handleString_def andThen_def ok_def fail_def WriteString_def Let_def
          afterValue_def split: if_splits)
  moreover have "htmlFree (out @ '' '')" using q(2) by simp
  ultimately show ?thesis using q(2) by blast
qed

lemma handleString_c10:
  "handleString c10_key ''a<b''
     = (c10_key\<lparr>builder := Some (''{'' @ nl @ ''  '' @ dq @ ''a'' @ [CHR 0x5C] @ ''u003cb''
                                  @ dq @ '':''),
          isFirstElement := False, expectingKey := False\<rparr>, None)"
  by (simp add: c10_key_def DefaultConfig_def engine_defs hex_def replicate_numeral)

lemma Format_c10:
  "Format (NewFormatter (Some DefaultConfig)) c10_input c10_tokens EOF
     = (''{'' @ nl @ ''  '' @ dq @ ''a'' @ [CHR 0x5C] @ ''u003cb'' @ dq @ '': '' @ dq
          @ [CHR 0xE3, CHR 0x81, CHR 0x82] @ [CHR 0x5C] @ ''u0026'' @ [CHR 0x5C] @ ''u003e''
          @ dq @ nl @ ''}'', None)"
  by (simp add: c10_input_def c10_tokens_def format_defs engine_defs hex_def
        replicate_numeral continuation_def)

text \<open>
  Claim C10. \<^verbatim>\<open>escapeString\<close> delegates to the encoder of the standard library, which
  writes \<open><\<close>, \<open>>\<close> and \<open>&\<close> as \<^verbatim>\<open>\u003c\<close>, \<^verbatim>\<open>\u003e\<close> and
  \<^verbatim>\<open>\u0026\<close>.
  So no escaped string contains one of the three characters; a string of ASCII bytes is
  escaped byte by byte; and what \<^verbatim>\<open>handleString\<close> appends to the output for a key
  or a value contains none of the three characters. Moreover, wherever one of the three
  characters occurs in a string, of whatever bytes, the escaped string has the escape
  sequence of the character in its place, between the escaped text before it and the
  escaped text after it; and when \<^verbatim>\<open>handleString\<close> accepts a key or a value with such
  a character, it appends to the output a separator without the three characters, then
  the string in quotes with the escape sequence in the place of the character, then
  the colon when the string is a key.
\<close>

theorem escapeString_html_escapes:
  "(escapeString s = Inr e \<longrightarrow> CHR ''<'' \<notin> set e \<and> CHR ''>'' \<notin> set e \<and> CHR ''&'' \<notin> set e)
   \<and> escapeByte CHR ''<'' = [CHR 0x5C] @ ''u003c''
   \<and> escapeByte CHR ''>'' = [CHR 0x5C] @ ''u003e''
   \<and> escapeByte CHR ''&'' = [CHR 0x5C] @ ''u0026''
   \<and> (length s \<le> 1000000 \<and> (\<forall>b\<in>set s. (of_char b :: nat) < 0x80) \<longrightarrow>
        escapeString s = Inr (concat (map escapeByte s)))
   \<and> (builder p = Some b \<and> handleString p s = (p', r) \<longrightarrow>
        (\<exists>out. builder p' = Some (b @ out)
           \<and> CHR ''<'' \<notin> set out \<and> CHR ''>'' \<notin> set out \<and> CHR ''&'' \<notin> set out))
   \<and> (((c = CHR ''<'' \<and> esc = [CHR 0x5C] @ ''u003c'')
         \<or> (c = CHR ''>'' \<and> esc = [CHR 0x5C] @ ''u003e'')
         \<or> (c = CHR ''&'' \<and> esc = [CHR 0x5C] @ ''u0026''))
        \<longrightarrow> appendStringBody (xs @ c # ys) = appendStringBody xs @ esc @ appendStringBody ys
          \<and> (length (xs @ c # ys) \<le> 1000000 \<longrightarrow>
               escapeString (xs @ c # ys)
                 = Inr (appendStringBody xs @ esc @ appendStringBody ys))
          \<and> (builder q = Some b' \<and> handleString q (xs @ c # ys) = (q', None) \<longrightarrow>
               (\<exists>sep. CHR ''<'' \<notin> set sep \<and> CHR ''>'' \<notin> set sep \<and> CHR ''&'' \<notin> set sep
                  \<and> builder q' = Some (b' @ sep @ dq @ appendStringBody xs @ esc
                        @ appendStringBody ys @ dq @ (if expectingKey q then '':'' else [])))))"
proof -
  have escaped: "escapeString s = Inr e \<longrightarrow>
      CHR ''<'' \<notin> set e \<and> CHR ''>'' \<notin> set e \<and> CHR ''&'' \<notin> set e"
    using htmlFree_escapeString [of s e] by (simp add: htmlFree_def)
  have ascii: "length s \<le> 1000000 \<and> (\<forall>b\<in>set s. (of_char b :: nat) < 0x80) \<longrightarrow>
        escapeString s = Inr (concat (map escapeByte s))"
    using escapeString_ok [of s] appendStringBody_ascii [of s] by simp
  have written: "builder p = Some b \<and> handleString p s = (p', r) \<longrightarrow>
        (\<exists>out. builder p' = Some (b @ out)
           \<and> CHR ''<'' \<notin> set out \<and> CHR ''>'' \<notin> set out \<and> CHR ''&'' \<notin> set out)"
    using handleString_htmlFree [of p b s p' r] by (simp add: htmlFree_def)
  have rendered: "appendStringBody (xs @ c # ys) = appendStringBody xs @ esc @ appendStringBody ys
          \<and> (length (xs @ c # ys) \<le> 1000000 \<longrightarrow>
               escapeString (xs @ c # ys)
                 = Inr (appendStringBody xs @ esc @ appendStringBody ys))
          \<and> (builder q = Some b' \<and> handleString q (xs @ c # ys) = (q', None) \<longrightarrow>
               (\<exists>sep. CHR ''<'' \<notin> set sep \<and> CHR ''>'' \<notin> set sep \<and> CHR ''&'' \<notin> set sep
                  \<and> builder q' = Some (b' @ sep @ dq @ appendStringBody xs @ esc
                        @ appendStringBody ys @ dq @ (if expectingKey q then '':'' else []))))"
    if html: "(c = CHR ''<'' \<and> esc = [CHR 0x5C] @ ''u003c'')
         \<or> (c = CHR ''>'' \<and> esc = [CHR 0x5C] @ ''u003e'')
         \<or> (c = CHR ''&'' \<and> esc = [CHR 0x5C] @ ''u0026'')"
  proof -
    from html have c: "(of_char c :: nat) < 0x80" and esc: "escapeByte c = esc"
      using escapeByte_html by auto
    have split: "appendStringBody (xs @ c # ys)
        = appendStringBody xs @ esc @ appendStringBody ys"
      using appendStringBody_ascii_split [OF c, of xs ys] esc by simp
    have whole: "length (xs @ c # ys) \<le> 1000000 \<longrightarrow>
        escapeString (xs @ c # ys) = Inr (appendStringBody xs @ esc @ appendStringBody ys)"
      using escapeString_ok [of "xs @ c # ys"] split by simp
    have appended: "\<exists>sep. CHR ''<'' \<notin> set sep \<and> CHR ''>'' \<notin> set sep \<and> CHR ''&'' \<notin> set sep
        \<and> builder q' = Some (b' @ sep @ dq @ appendStringBody xs @ esc
              @ appendStringBody ys @ dq @ (if expectingKey q then '':'' else []))"
      if h: "builder q = Some b'" "handleString q (xs @ c # ys) = (q', None)"
    proof (cases "expectingKey q")
      case True
      from handleString_key_output [OF h(1) True h(2)] split True show ?thesis
        by (auto simp: htmlFree_def)
    next
      case False
      from handleString_value_output [OF h(1) False h(2)] split False show ?thesis
        by (auto simp: htmlFree_def)
    qed
    from split whole appended show ?thesis by blast
  qed
  from escaped escapeByte_html ascii written rendered show ?thesis
    by blast
qed

theorem escapeString_html_escapes_witness:
  "escapeString ''a<b>&c''
     = Inr (''a'' @ [CHR 0x5C] @ ''u003cb'' @ [CHR 0x5C] @ ''u003e'' @ [CHR 0x5C] @ ''u0026c'')
   \<and> escapeString ([CHR 0xE3, CHR 0x81, CHR 0x82] @ ''&'')
     = Inr ([CHR 0xE3, CHR 0x81, CHR 0x82] @ [CHR 0x5C] @ ''u0026'')
   \<and> handleString c10_key ''a<b''
     = (c10_key\<lparr>builder := Some (''{'' @ nl @ ''  '' @ dq @ ''a'' @ [CHR 0x5C] @ ''u003cb''
                                  @ dq @ '':''),
          isFirstElement := False, expectingKey := False\<rparr>, None)
   \<and> (\<exists>sep. CHR ''<'' \<notin> set sep \<and> CHR ''>'' \<notin> set sep \<and> CHR ''&'' \<notin> set sep
         \<and> builder (fst (handleString c10_key ''a<b''))
             = Some (''{'' @ sep @ dq @ ''a'' @ [CHR 0x5C] @ ''u003cb'' @ dq @ '':''))
   \<and> handleString (newParser (NewFormatter (Some DefaultConfig)) ''x'') ''a<b>&c''
     = ((newParser (NewFormatter (Some DefaultConfig)) ''x'')
          \<lparr>builder := Some (dq @ ''a'' @ [CHR 0x5C] @ ''u003cb'' @ [CHR 0x5C] @ ''u003e''
                              @ [CHR 0x5C] @ ''u0026c'' @ dq),
           isFirstElement := False, expectingKey := True\<rparr>, None)
   \<and> Format (NewFormatter (Some DefaultConfig)) c10_input c10_tokens EOF
     = (''{'' @ nl @ ''  '' @ dq @ ''a'' @ [CHR 0x5C] @ ''u003cb'' @ dq @ '': '' @ dq
          @ [CHR 0xE3, CHR 0x81, CHR 0x82] @ [CHR 0x5C] @ ''u0026'' @ [CHR 0x5C] @ ''u003e''
          @ dq @ nl @ ''}'', None)"
proof -
  have "length ''a<b>&c'' \<le> 1000000 \<and> (\<forall>b\<in>set ''a<b>&c''. (of_char b :: nat) < 0x80)"
    by simp
  with escapeString_html_escapes [of "''a<b>&c''"]
  have "escapeString ''a<b>&c'' = Inr (concat (map escapeByte ''a<b>&c''))"
    by blast
  then have first: "escapeString ''a<b>&c''
     = Inr (''a'' @ [CHR 0x5C] @ ''u003cb'' @ [CHR 0x5C] @ ''u003e'' @ [CHR 0x5C] @ ''u0026c'')"
    by (simp add: escapeByte_def hex_def)
  have amp: "(CHR ''&'' = CHR ''<'' \<and> [CHR 0x5C] @ ''u0026'' = [CHR 0x5C] @ ''u003c'')
         \<or> (CHR ''&'' = CHR ''>'' \<and> [CHR 0x5C] @ ''u0026'' = [CHR 0x5C] @ ''u003e'')
         \<or> (CHR ''&'' = CHR ''&'' \<and> [CHR 0x5C] @ ''u0026'' = [CHR 0x5C] @ ''u0026'')"
    by simp
  with escapeString_html_escapes [where c = "CHR ''&''" and esc = "[CHR 0x5C] @ ''u0026''"
      and xs = "[CHR 0xE3, CHR 0x81, CHR 0x82]" and ys = "[]"]
  have "length ([CHR 0xE3, CHR 0x81, CHR 0x82] @ CHR ''&'' # []) \<le> 1000000 \<longrightarrow>
      escapeString ([CHR 0xE3, CHR 0x81, CHR 0x82] @ CHR ''&'' # [])
        = Inr (appendStringBody [CHR 0xE3, CHR 0x81, CHR 0x82] @ ([CHR 0x5C] @ ''u0026'')
                 @ appendStringBody [])"
    by blast
  then have second: "escapeString ([CHR 0xE3, CHR 0x81, CHR 0x82] @ ''&'')
     = Inr ([CHR 0xE3, CHR 0x81, CHR 0x82] @ [CHR 0x5C] @ ''u0026'')"
    by (simp add: continuation_def)
  let ?q' = "c10_key\<lparr>builder := Some (''{'' @ nl @ ''  '' @ dq @ ''a'' @ [CHR 0x5C] @ ''u003cb''
                                  @ dq @ '':''),
          isFirstElement := False, expectingKey := False\<rparr>"
  have lt: "(CHR ''<'' = CHR ''<'' \<and> [CHR 0x5C] @ ''u003c'' = [CHR 0x5C] @ ''u003c'')
         \<or> (CHR ''<'' = CHR ''>'' \<and> [CHR 0x5C] @ ''u003c'' = [CHR 0x5C] @ ''u003e'')
         \<or> (CHR ''<'' = CHR ''&'' \<and> [CHR 0x5C] @ ''u003c'' = [CHR 0x5C] @ ''u0026'')"
    by simp
  have key: "builder c10_key = Some ''{''
      \<and> handleString c10_key (''a'' @ CHR ''<'' # ''b'') = (?q', None)"
    using handleString_c10 by (simp add: c10_key_def)
  from escapeString_html_escapes [where c = "CHR ''<''" and esc = "[CHR 0x5C] @ ''u003c''"
      and xs = "''a''" and ys = "''b''" and q = c10_key and b' = "''{''" and q' = ?q'] lt key
  have "\<exists>sep. CHR ''<'' \<notin> set sep \<and> CHR ''>'' \<notin> set sep \<and> CHR ''&'' \<notin> set sep
      \<and> builder ?q' = Some (''{'' @ sep @ dq @ appendStringBody ''a'' @ ([CHR 0x5C] @ ''u003c'')
            @ appendStringBody ''b'' @ dq @ (if expectingKey c10_key then '':'' else []))"
    by blast
  then have keyed: "\<exists>sep. CHR ''<'' \<notin> set sep \<and> CHR ''>'' \<notin> set sep \<and> CHR ''&'' \<notin> set sep
         \<and> builder (fst (handleString c10_key ''a<b''))
             = Some (''{'' @ sep @ dq @ ''a'' @ [CHR 0x5C] @ ''u003cb'' @ dq @ '':'')"
    by (simp add: handleString_c10)
  have root: "handleString (newParser (NewFormatter (Some DefaultConfig)) ''x'') ''a<b>&c''
     = ((newParser (NewFormatter (Some DefaultConfig)) ''x'')
          \<lparr>builder := Some (dq @ ''a'' @ [CHR 0x5C] @ ''u003cb'' @ [CHR 0x5C] @ ''u003e''
                              @ [CHR 0x5C] @ ''u0026c'' @ dq),
           isFirstElement := False, expectingKey := True\<rparr>, None)"
    by (simp add: handleString_def first newParser_def NewFormatter_def valueSeparator_def
          isInArray_def andThen_def ok_def WriteString_def afterValue_def)
  from first second handleString_c10 keyed root Format_c10 show ?thesis by blast
qed

subsection \<open>The depth and the stack of container kinds\<close>

lemma unchanged_refl [simp]: "unchanged p p"
  by (simp add: unchanged_def)

lemma unchanged_WriteString [simp]: "unchanged p (WriteString p s)"
  by (auto simp: unchanged_def WriteString_def)

lemma unchanged_trans: "unchanged p q \<Longrightarrow> unchanged q r \<Longrightarrow> unchanged p r"
  by (auto simp: unchanged_def)

lemma isInArray_unchanged: "unchanged p q \<Longrightarrow> isInArray q = isInArray p"
  by (simp add: unchanged_def isInArray_def)

lemma shouldFormatCompact_unchanged: "unchanged p q \<Longrightarrow> shouldFormatCompact q = shouldFormatCompact p"
  by (auto simp: unchanged_def shouldFormatCompact_def split: option.splits)

lemma writeIndent_unchanged: "writeIndent p = (p', r) \<Longrightarrow> unchanged p p'"
  by (auto simp: writeIndent_def fail_def ok_def Let_def
        split: if_splits option.splits sum.splits)

lemma writeNewlineAndIndent_unchanged:
  assumes "writeNewlineAndIndent p = (p', r)"
  shows "unchanged p p'"
proof (cases "builder p = None")
  case True
  with assms show ?thesis by (simp add: writeNewlineAndIndent_def fail_def)
next
  case False
  obtain q rq where w: "writeIndent (WriteString p nl) = (q, rq)"
    by (cases "writeIndent (WriteString p nl)")
  then have "unchanged (WriteString p nl) q" by (rule writeIndent_unchanged)
  then have "unchanged p q" by (rule unchanged_trans [OF unchanged_WriteString])
  moreover have "p' = q"
    using assms False w
    by (auto simp: writeNewlineAndIndent_def wrapping_def split: option.splits fault.splits)
  ultimately show ?thesis by simp
qed

lemma wrapped_newline_unchanged:
  assumes "wrapping msg (writeNewlineAndIndent p) = (p', r)"
  shows "unchanged p p'"
proof -
  obtain q rq where w: "writeNewlineAndIndent p = (q, rq)"
    by (cases "writeNewlineAndIndent p")
  with assms have "p' = q"
    by (auto simp: wrapping_def split: option.splits fault.splits)
  with writeNewlineAndIndent_unchanged [OF w] show ?thesis by simp
qed

lemma commaSeparator_unchanged:
  assumes "commaSeparator p = (p', r)"
  shows "unchanged p p'"
proof (cases "shouldFormatCompact (WriteString p '','')")
  case True
  with assms have "p' = WriteString (WriteString p '','') '' ''"
    by (simp add: commaSeparator_def ok_def Let_def)
  then show ?thesis
    using unchanged_trans [OF unchanged_WriteString unchanged_WriteString] by simp
next
  case False
  with assms have "wrapping ''failed to write newline and indent''
      (writeNewlineAndIndent (WriteString p '','')) = (p', r)"
    by (simp add: commaSeparator_def Let_def)
  then have "unchanged (WriteString p '','') p'" by (rule wrapped_newline_unchanged)
  then show ?thesis by (rule unchanged_trans [OF unchanged_WriteString])
qed

lemma valueSeparator_unchanged:
  assumes "valueSeparator p = (p', r)"
  shows "unchanged p p'"
  using assms commaSeparator_unchanged [of p p' r]
    wrapped_newline_unchanged [of "''failed to write newline and indent''" p p' r]
  by (auto simp: valueSeparator_def ok_def split: if_splits)

lemma keySeparator_unchanged:
  assumes "keySeparator p = (p', r)"
  shows "unchanged p p'"
  using assms commaSeparator_unchanged [of p p' r]
    wrapped_newline_unchanged [of "''failed to write newline and indent''" p p' r]
  by (auto simp: keySeparator_def ok_def split: if_splits)

lemma startObject_step:
  assumes "startObject p = (p', None)"
  shows "depth p' = depth p + 1 \<and> inArray p' = inArray p @ [False] \<and> depth p < 100"
proof -
  obtain q rq where sep: "valueSeparator p = (q, rq)" by (cases "valueSeparator p")
  from valueSeparator_unchanged [OF sep] have "unchanged p q" .
  with assms sep show ?thesis
    by (auto simp: startObject_def andThen_def wrapping_def enterObject_def fail_def ok_def
          WriteString_def unchanged_def split: if_splits option.splits)
qed

lemma startArray_step:
  assumes "startArray p = (p', None)"
  shows "depth p' = depth p + 1 \<and> inArray p' = inArray p @ [True] \<and> depth p < 100"
proof -
  obtain q rq where sep:
    "(if \<not> isFirstElement p \<and> isInArray p then commaSeparator p else ok p) = (q, rq)"
    by (cases "if \<not> isFirstElement p \<and> isInArray p then commaSeparator p else ok p")
  then have "unchanged p q"
    using commaSeparator_unchanged [of p q rq] by (auto simp: ok_def split: if_splits)
  with assms sep show ?thesis
    by (auto simp: startArray_def andThen_def wrapping_def enterArray_def fail_def ok_def
          WriteString_def unchanged_def split: if_splits option.splits)
qed

lemma endObject_step:
  assumes "endObject p = (p', None)"
  shows "depth p' = depth p - 1 \<and> inArray p' = butlast (inArray p) \<and> 0 < depth p
         \<and> inArray p \<noteq> []"
proof -
  let ?q = "p\<lparr>depth := depth p - 1, inArray := butlast (inArray p), expectingKey := False\<rparr>"
  obtain q' rq where nl: "wrapping ''failed to write newline and indent''
      (writeNewlineAndIndent ?q) = (q', rq)"
    by (cases "wrapping ''failed to write newline and indent'' (writeNewlineAndIndent ?q)")
  from wrapped_newline_unchanged [OF nl] have "unchanged ?q q'" .
  with assms nl show ?thesis
    by (auto simp: endObject_def andThen_def wrapping_def exitObject_def fail_def ok_def
          WriteString_def unchanged_def Let_def split: if_splits option.splits)
qed

lemma endArray_step:
  assumes "endArray p = (p', None)"
  shows "depth p' = depth p - 1 \<and> inArray p' = butlast (inArray p) \<and> 0 < depth p
         \<and> inArray p \<noteq> []"
proof -
  let ?q = "p\<lparr>depth := depth p - 1, inArray := butlast (inArray p)\<rparr>"
  obtain q' rq where nl: "wrapping ''failed to write newline and indent''
      (writeNewlineAndIndent ?q) = (q', rq)"
    by (cases "wrapping ''failed to write newline and indent'' (writeNewlineAndIndent ?q)")
  from wrapped_newline_unchanged [OF nl] have "unchanged ?q q'" .
  with assms nl show ?thesis
    by (auto simp: endArray_def andThen_def wrapping_def exitArray_def fail_def ok_def
          WriteString_def unchanged_def Let_def isInArray_def split: if_splits option.splits)
qed

lemma afterValue_depth [simp]:
  "depth (afterValue p) = depth p" "inArray (afterValue p) = inArray p"
  by (simp_all add: afterValue_def Let_def)

lemma handleString_step:
  assumes "handleString p v = (p', None)"
  shows "depth p' = depth p \<and> inArray p' = inArray p"
proof -
  obtain q rq where sep: "valueSeparator p = (q, rq)" by (cases "valueSeparator p")
  obtain k rk where key: "keySeparator p = (k, rk)" by (cases "keySeparator p")
  from valueSeparator_unchanged [OF sep] keySeparator_unchanged [OF key]
  have "unchanged p q" "unchanged p k" .
  with assms sep key show ?thesis
    by (auto simp: handleString_def andThen_def fail_def ok_def WriteString_def unchanged_def
          Let_def split: if_splits option.splits sum.splits)
qed

lemma handleNumber_step:
  assumes "handleNumber p v = (p', None)"
  shows "depth p' = depth p \<and> inArray p' = inArray p"
proof -
  obtain q rq where sep: "valueSeparator p = (q, rq)" by (cases "valueSeparator p")
  from valueSeparator_unchanged [OF sep] have "unchanged p q" .
  with assms sep show ?thesis
    by (auto simp: handleNumber_def andThen_def fail_def ok_def WriteString_def unchanged_def
          split: if_splits option.splits sum.splits)
qed

lemma handleBoolean_step:
  assumes "handleBoolean p v = (p', None)"
  shows "depth p' = depth p \<and> inArray p' = inArray p"
proof -
  obtain q rq where sep: "valueSeparator p = (q, rq)" by (cases "valueSeparator p")
  from valueSeparator_unchanged [OF sep] have "unchanged p q" .
  with assms sep show ?thesis
    by (auto simp: handleBoolean_def andThen_def fail_def ok_def WriteString_def unchanged_def
          Let_def split: if_splits option.splits)
qed

lemma handleNull_step:
  assumes "handleNull p = (p', None)"
  shows "depth p' = depth p \<and> inArray p' = inArray p"
proof -
  obtain q rq where sep: "valueSeparator p = (q, rq)" by (cases "valueSeparator p")
  from valueSeparator_unchanged [OF sep] have "unchanged p q" .
  with assms sep show ?thesis
    by (auto simp: handleNull_def andThen_def fail_def ok_def WriteString_def unchanged_def
          split: if_splits option.splits)
qed

lemma processToken_step:
  assumes "processToken p t = (p', None)"
  shows "0 \<le> depth p \<and> depth p \<le> 100
     \<and> (t = Delim CHR ''{'' \<longrightarrow>
          depth p' = depth p + 1 \<and> inArray p' = inArray p @ [False] \<and> depth p < 100)
     \<and> (t = Delim CHR ''['' \<longrightarrow>
          depth p' = depth p + 1 \<and> inArray p' = inArray p @ [True] \<and> depth p < 100)
     \<and> (t = Delim CHR ''}'' \<or> t = Delim CHR '']'' \<longrightarrow>
          depth p' = depth p - 1 \<and> inArray p' = butlast (inArray p) \<and> 0 < depth p
          \<and> inArray p \<noteq> [])
     \<and> (nestingDelta t = 0 \<longrightarrow> depth p' = depth p \<and> inArray p' = inArray p)"
proof -
  from assms have range: "0 \<le> depth p \<and> depth p \<le> 100"
    by (auto simp: processToken_def fail_def split: if_splits)
  show ?thesis
  proof (cases t)
    case (Delim d)
    with assms range show ?thesis
      using startObject_step [of p p'] startArray_step [of p p'] endObject_step [of p p']
        endArray_step [of p p']
      by (auto simp: processToken_def handleDelimiter_def nestingDelta_def fail_def
            split: if_splits)
  next
    case (String v)
    with assms range handleString_step [of p v p'] show ?thesis
      by (auto simp: processToken_def nestingDelta_def split: if_splits)
  next
    case (Float64 v)
    with assms range handleNumber_step [of p v p'] show ?thesis
      by (auto simp: processToken_def nestingDelta_def split: if_splits)
  next
    case (Bool v)
    with assms range handleBoolean_step [of p v p'] show ?thesis
      by (auto simp: processToken_def nestingDelta_def split: if_splits)
  next
    case Nil
    with assms range handleNull_step [of p p'] show ?thesis
      by (auto simp: processToken_def nestingDelta_def split: if_splits)
  next
    case (Other ty)
    with assms range show ?thesis
      by (auto simp: processToken_def fail_def split: if_splits)
  qed
qed

lemma processToken_delta:
  assumes "processToken p t = (p', None)"
  shows "depth p' = depth p + nestingDelta t \<and> 0 \<le> depth p \<and> depth p \<le> 100
         \<and> 0 \<le> depth p' \<and> depth p' \<le> 100"
  using processToken_step [OF assms]
  by (auto simp: nestingDelta_def split: if_splits)

lemma processToken_depthInvariant:
  assumes "processToken p t = (p', None)" and "depthInvariant p"
  shows "depthInvariant p'"
proof -
  note step = processToken_step [OF assms(1)]
  consider (obj) "t = Delim CHR ''{''" | (arr) "t = Delim CHR ''[''"
    | (close) "t = Delim CHR ''}'' \<or> t = Delim CHR '']''" | (scalar) "nestingDelta t = 0"
    by (cases "t = Delim CHR ''{''"; cases "t = Delim CHR ''[''";
        cases "t = Delim CHR ''}'' \<or> t = Delim CHR '']''")
       (simp_all add: nestingDelta_def)
  then show ?thesis
  proof cases
    case obj
    with step assms(2) show ?thesis by (simp add: depthInvariant_def)
  next
    case arr
    with step assms(2) show ?thesis by (simp add: depthInvariant_def)
  next
    case close
    with step have "depth p' = depth p - 1" "inArray p' = butlast (inArray p)" "0 < depth p"
      "inArray p \<noteq> []"
      by blast+
    with assms(2) show ?thesis
      by (cases "inArray p" rule: rev_cases) (auto simp: depthInvariant_def)
  next
    case scalar
    with step assms(2) show ?thesis by (simp add: depthInvariant_def)
  qed
qed

lemma formatLoop_depthInvariant:
  "formatLoop p n ts e = Finished p' n' \<Longrightarrow> depthInvariant p \<Longrightarrow> depthInvariant p'"
proof (induction ts arbitrary: p n)
  case Nil
  then show ?case by (cases e) auto
next
  case (Cons t ts)
  then show ?case
    by (auto split: if_splits prod.splits option.splits fault.splits
          dest: processToken_depthInvariant)
qed

lemma depthInvariant_newParser: "depthInvariant (newParser f jsonStr)"
  by (simp add: depthInvariant_def newParser_def)


text \<open>
  Claim C4. After every token that \<^verbatim>\<open>Format\<close> has processed successfully, the length
  of the stack \<^verbatim>\<open>inArray\<close> equals \<^verbatim>\<open>depth\<close> and \<open>0 \<le> depth \<le> 100\<close>: the
  invariant holds of the parser that the loop has reached on any sequence of tokens, and
  every successful \<^verbatim>\<open>processToken\<close> preserves it. An opening delimiter pushes one
  tag and adds one to the depth, a closing delimiter pops one tag and subtracts one, and
  no other token changes the depth or the stack.
\<close>

theorem depth_stack_invariant:
  "(formatLoop (newParser f jsonStr) 0 tokens e = Finished p n \<longrightarrow>
      int (length (inArray p)) = depth p \<and> 0 \<le> depth p \<and> depth p \<le> 100)
   \<and> (int (length (inArray q)) = depth q \<and> 0 \<le> depth q \<and> depth q \<le> 100
        \<and> processToken q t = (q', None) \<longrightarrow>
      int (length (inArray q')) = depth q' \<and> 0 \<le> depth q' \<and> depth q' \<le> 100)
   \<and> (processToken q t = (q', None) \<longrightarrow>
        (t = Delim CHR ''{'' \<longrightarrow> depth q' = depth q + 1 \<and> inArray q' = inArray q @ [False])
      \<and> (t = Delim CHR ''['' \<longrightarrow> depth q' = depth q + 1 \<and> inArray q' = inArray q @ [True])
      \<and> (t = Delim CHR ''}'' \<or> t = Delim CHR '']'' \<longrightarrow>
            depth q' = depth q - 1 \<and> inArray q' = butlast (inArray q) \<and> inArray q \<noteq> [])
      \<and> (t \<noteq> Delim CHR ''{'' \<and> t \<noteq> Delim CHR ''['' \<and> t \<noteq> Delim CHR ''}''
           \<and> t \<noteq> Delim CHR '']'' \<longrightarrow> depth q' = depth q \<and> inArray q' = inArray q))"
proof -
  have run: "formatLoop (newParser f jsonStr) 0 tokens e = Finished p n \<longrightarrow>
      int (length (inArray p)) = depth p \<and> 0 \<le> depth p \<and> depth p \<le> 100"
    using formatLoop_depthInvariant [of "newParser f jsonStr" 0 tokens e p n]
      depthInvariant_newParser [of f jsonStr]
    by (simp add: depthInvariant_def)
  have preserved: "int (length (inArray q)) = depth q \<and> 0 \<le> depth q \<and> depth q \<le> 100
        \<and> processToken q t = (q', None) \<longrightarrow>
      int (length (inArray q')) = depth q' \<and> 0 \<le> depth q' \<and> depth q' \<le> 100"
    using processToken_depthInvariant [of q t q'] by (simp add: depthInvariant_def)
  have step: "processToken q t = (q', None) \<longrightarrow>
        (t = Delim CHR ''{'' \<longrightarrow> depth q' = depth q + 1 \<and> inArray q' = inArray q @ [False])
      \<and> (t = Delim CHR ''['' \<longrightarrow> depth q' = depth q + 1 \<and> inArray q' = inArray q @ [True])
      \<and> (t = Delim CHR ''}'' \<or> t = Delim CHR '']'' \<longrightarrow>
            depth q' = depth q - 1 \<and> inArray q' = butlast (inArray q) \<and> inArray q \<noteq> [])
      \<and> (t \<noteq> Delim CHR ''{'' \<and> t \<noteq> Delim CHR ''['' \<and> t \<noteq> Delim CHR ''}''
           \<and> t \<noteq> Delim CHR '']'' \<longrightarrow> depth q' = depth q \<and> inArray q' = inArray q)"
    using processToken_step [of q t q'] by (auto simp: nestingDelta_def split: if_splits)
  from run preserved step show ?thesis by (intro conjI)
qed

lemma formatLoop_c4:
  "formatLoop (newParser (NewFormatter (Some DefaultConfig)) c1_input) 0 (take 4 c1_tokens) EOF
     = Finished c4_state 4"
  by (simp add: c1_input_def c1_tokens_def c4_state_def format_defs engine_defs
        replicate_numeral)

lemma processToken_c4:
  "processToken c4_state (Delim CHR ''}'')
     = (c4_state\<lparr>depth := 2, inArray := [False, True],
          builder := Some (''{'' @ nl @ ''  '' @ dq @ ''a'' @ dq @ '': ['' @ nl @ ''    {}''),
          expectingKey := False\<rparr>, None)"
  by (simp add: c4_state_def format_defs engine_defs)

theorem depth_stack_invariant_witness:
  "formatLoop (newParser (NewFormatter (Some DefaultConfig)) c1_input) 0 (take 4 c1_tokens) EOF
     = Finished c4_state 4
   \<and> int (length (inArray c4_state)) = depth c4_state \<and> depth c4_state = 3
   \<and> processToken c4_state (Delim CHR ''}'')
     = (c4_state\<lparr>depth := 2, inArray := [False, True],
          builder := Some (''{'' @ nl @ ''  '' @ dq @ ''a'' @ dq @ '': ['' @ nl @ ''    {}''),
          expectingKey := False\<rparr>, None)
   \<and> butlast (inArray c4_state) = [False, True]"
proof -
  let ?q' = "c4_state\<lparr>depth := 2, inArray := [False, True],
          builder := Some (''{'' @ nl @ ''  '' @ dq @ ''a'' @ dq @ '': ['' @ nl @ ''    {}''),
          expectingKey := False\<rparr>"
  note inst = depth_stack_invariant [of "NewFormatter (Some DefaultConfig)" c1_input
      "take 4 c1_tokens" EOF c4_state 4 c4_state "Delim CHR ''}''" ?q']
  from inst formatLoop_c4
  have inv: "int (length (inArray c4_state)) = depth c4_state \<and> 0 \<le> depth c4_state
      \<and> depth c4_state \<le> 100"
    by blast
  from inst processToken_c4
  have "Delim CHR ''}'' = Delim CHR ''}'' \<or> Delim CHR ''}'' = Delim CHR '']'' \<longrightarrow>
      depth ?q' = depth c4_state - 1 \<and> inArray ?q' = butlast (inArray c4_state)
      \<and> inArray c4_state \<noteq> []"
    by blast
  then have pop: "butlast (inArray c4_state) = [False, True]"
    by simp
  have d: "depth c4_state = 3" by (simp add: c4_state_def)
  from inv pop d formatLoop_c4 processToken_c4 show ?thesis by blast
qed

subsection \<open>The guard on the nesting depth\<close>

lemma maxNesting_ge: "d \<le> maxNesting d ts"
  by (induction ts arbitrary: d) auto

lemma depthGuardError_Msg:
  "depthGuardError err \<Longrightarrow>
     Msg err = ''JSON structure too deeply nested (max depth: 100)''
     \<or> Msg err = ''failed to enter object state''
     \<or> Msg err = ''failed to enter array state''"
  by (auto simp: depthGuardError_def NewFormatError_def WrapFormatError_def)

lemma wrapping_Msg:
  "wrapping msg r = (q, Some (Err e)) \<Longrightarrow> Msg e = msg"
  by (auto simp: wrapping_def WrapFormatError_def split: prod.splits option.splits fault.splits)

lemma fail_Msg: "fail p msg = (q, Some (Err e)) \<Longrightarrow> Msg e = msg"
  by (auto simp: fail_def NewFormatError_def)

lemma commaSeparator_Msg:
  "commaSeparator p = (q, Some (Err e)) \<Longrightarrow> Msg e = ''failed to write newline and indent''"
  by (auto simp: commaSeparator_def Let_def ok_def dest: wrapping_Msg split: if_splits)

lemma valueSeparator_Msg:
  "valueSeparator p = (q, Some (Err e)) \<Longrightarrow> Msg e = ''failed to write newline and indent''"
  by (auto simp: valueSeparator_def ok_def dest: wrapping_Msg commaSeparator_Msg
        split: if_splits)

lemma keySeparator_Msg:
  "keySeparator p = (q, Some (Err e)) \<Longrightarrow> Msg e = ''failed to write newline and indent''"
  by (auto simp: keySeparator_def ok_def dest: wrapping_Msg commaSeparator_Msg
        split: if_splits)

lemma andThen_error:
  "andThen r f = (q, Some x) \<Longrightarrow>
     r = (q, Some x) \<or> (\<exists>p. r = (p, None) \<and> f p = (q, Some x))"
  by (auto simp: andThen_def split: prod.splits option.splits)

lemma startObject_depth_error:
  assumes "startObject p = (p', Some (Err e))" and "depthGuardError e"
  shows "100 \<le> depth p"
proof -
  obtain q rq where sep: "valueSeparator p = (q, rq)" by (cases "valueSeparator p")
  from valueSeparator_unchanged [OF sep] have u: "unchanged p q" .
  have m: "Msg e' = ''failed to write newline and indent''" if "rq = Some (Err e')" for e'
    using sep that valueSeparator_Msg [of p q e'] by simp
  from assms sep u m show ?thesis
    by (auto simp: startObject_def andThen_def wrapping_def enterObject_def fail_def ok_def
          WriteString_def unchanged_def depthGuardError_def NewFormatError_def
          WrapFormatError_def
          split: if_splits option.splits fault.splits)
qed

lemma startArray_depth_error:
  assumes "startArray p = (p', Some (Err e))" and "depthGuardError e"
  shows "100 \<le> depth p"
proof -
  obtain q rq where sep:
    "(if \<not> isFirstElement p \<and> isInArray p then commaSeparator p else ok p) = (q, rq)"
    by (cases "if \<not> isFirstElement p \<and> isInArray p then commaSeparator p else ok p")
  then have u: "unchanged p q"
    using commaSeparator_unchanged [of p q rq] by (auto simp: ok_def split: if_splits)
  have m: "Msg e' = ''failed to write newline and indent''" if "rq = Some (Err e')" for e'
    using sep that commaSeparator_Msg [of p q e'] by (auto simp: ok_def split: if_splits)
  from assms sep u m show ?thesis
    by (auto simp: startArray_def andThen_def wrapping_def enterArray_def fail_def ok_def
          WriteString_def unchanged_def depthGuardError_def NewFormatError_def
          WrapFormatError_def
          split: if_splits option.splits fault.splits)
qed

lemma endObject_depth_error:
  assumes "endObject p = (p', Some (Err e))"
  shows "\<not> depthGuardError e"
  using assms depthGuardError_Msg [of e]
  by (auto simp: endObject_def ok_def Let_def
        dest!: andThen_error fail_Msg wrapping_Msg split: if_splits)

lemma endArray_depth_error:
  assumes "endArray p = (p', Some (Err e))"
  shows "\<not> depthGuardError e"
  using assms depthGuardError_Msg [of e]
  by (auto simp: endArray_def ok_def Let_def
        dest!: andThen_error fail_Msg wrapping_Msg split: if_splits)

lemma handleString_depth_error:
  assumes "handleString p v = (p', Some (Err e))"
  shows "\<not> depthGuardError e"
  using assms depthGuardError_Msg [of e]
  by (auto simp: handleString_def ok_def Let_def WrapFormatError_def
        dest!: andThen_error fail_Msg keySeparator_Msg valueSeparator_Msg
        split: if_splits sum.splits)

lemma handleNumber_depth_error:
  assumes "handleNumber p v = (p', Some (Err e))"
  shows "\<not> depthGuardError e"
  using assms depthGuardError_Msg [of e]
  by (auto simp: handleNumber_def ok_def WrapFormatError_def
        dest!: andThen_error fail_Msg valueSeparator_Msg
        split: if_splits sum.splits)

lemma handleBoolean_depth_error:
  assumes "handleBoolean p v = (p', Some (Err e))"
  shows "\<not> depthGuardError e"
  using assms depthGuardError_Msg [of e]
  by (auto simp: handleBoolean_def ok_def Let_def
        dest!: andThen_error fail_Msg valueSeparator_Msg
        split: if_splits)

lemma handleNull_depth_error:
  assumes "handleNull p = (p', Some (Err e))"
  shows "\<not> depthGuardError e"
  using assms depthGuardError_Msg [of e]
  by (auto simp: handleNull_def ok_def
        dest!: andThen_error fail_Msg valueSeparator_Msg
        split: if_splits)

lemma processToken_depth_error:
  assumes "processToken p t = (p', Some (Err e))" and "depthGuardError e" and "depth p \<le> 100"
  shows "depth p = 100 \<and> nestingDelta t = 1"
proof -
  note m = depthGuardError_Msg [OF assms(2)]
  have nonneg: "\<not> depth p < 0"
    using assms(1) m by (auto simp: processToken_def dest!: fail_Msg split: if_splits)
  with assms(1,3) have h: "(case t of
        Delim v \<Rightarrow> handleDelimiter p v
      | String v \<Rightarrow> handleString p v
      | Float64 v \<Rightarrow> handleNumber p v
      | Bool v \<Rightarrow> handleBoolean p v
      | Nil \<Rightarrow> handleNull p
      | Other ty \<Rightarrow> fail p (''unknown token type: '' @ ty)) = (p', Some (Err e))"
    by (simp add: processToken_def)
  show ?thesis
  proof (cases t)
    case (Delim d)
    with h have d: "handleDelimiter p d = (p', Some (Err e))" by simp
    consider (obj) "d = CHR ''{''" | (arr) "d = CHR ''[''" | (cobj) "d = CHR ''}''"
      | (carr) "d = CHR '']''"
      | (other) "d \<noteq> CHR ''{''" "d \<noteq> CHR ''[''" "d \<noteq> CHR ''}''" "d \<noteq> CHR '']''"
      by blast
    then show ?thesis
    proof cases
      case obj
      with d startObject_depth_error [of p p' e] assms(2,3) Delim show ?thesis
        by (simp add: handleDelimiter_def nestingDelta_def)
    next
      case arr
      with d startArray_depth_error [of p p' e] assms(2,3) Delim show ?thesis
        by (simp add: handleDelimiter_def nestingDelta_def)
    next
      case cobj
      with d endObject_depth_error [of p p' e] assms(2) show ?thesis
        by (simp add: handleDelimiter_def)
    next
      case carr
      with d endArray_depth_error [of p p' e] assms(2) show ?thesis
        by (simp add: handleDelimiter_def)
    next
      case other
      with d m show ?thesis
        by (auto simp: handleDelimiter_def dest!: fail_Msg)
    qed
  next
    case (String v)
    with h handleString_depth_error [of p v p' e] assms(2) show ?thesis by simp
  next
    case (Float64 v)
    with h handleNumber_depth_error [of p v p' e] assms(2) show ?thesis by simp
  next
    case (Bool v)
    with h handleBoolean_depth_error [of p v p' e] assms(2) show ?thesis by simp
  next
    case Nil
    with h handleNull_depth_error [of p p' e] assms(2) show ?thesis by simp
  next
    case (Other ty)
    with h m show ?thesis by (auto dest!: fail_Msg)
  qed
qed

lemma formatLoop_depth_error:
  "formatLoop p n ts e = Returned r (Some err) \<Longrightarrow> depthGuardError err \<Longrightarrow> depth p \<le> 100
   \<Longrightarrow> 100 < maxNesting (depth p) ts"
proof (induction ts arbitrary: p n)
  case Nil
  then show ?case
    by (cases e)
       (auto simp: depthGuardError_def NewFormatError_def WrapFormatError_def
          WrapFormatErrorWithPosition_def)
next
  case (Cons t ts)
  show ?case
  proof (cases "n + 1 > 10000")
    case True
    with Cons.prems show ?thesis
      by (auto simp: depthGuardError_def NewFormatError_def WrapFormatError_def)
  next
    case False
    obtain p1 r1 where step: "processToken p t = (p1, r1)" by (cases "processToken p t")
    show ?thesis
    proof (cases r1)
      case None
      with step False Cons.prems have loop: "formatLoop p1 (n + 1) ts e = Returned r (Some err)"
        by simp
      from processToken_delta [of p t p1] step None
      have d: "depth p1 = depth p + nestingDelta t" "depth p1 \<le> 100" by simp_all
      from Cons.IH [OF loop Cons.prems(2) d(2)] d(1)
      show ?thesis by simp
    next
      case (Some x)
      show ?thesis
      proof (cases x)
        case (Err e')
        with Some step False Cons.prems have "e' = err" by simp
        with processToken_depth_error [of p t p1 err] step Some Err Cons.prems
        have "depth p = 100" "nestingDelta t = 1" by simp_all
        with maxNesting_ge [of "depth p + nestingDelta t" ts] show ?thesis by simp
      next
        case (Panic v)
        with Some step False Cons.prems show ?thesis by simp
      qed
    qed
  qed
qed

lemma formatLoop_Finished_nesting:
  "formatLoop p n ts e = Finished p' n' \<Longrightarrow> depth p \<le> 100 \<Longrightarrow> maxNesting (depth p) ts \<le> 100"
proof (induction ts arbitrary: p n)
  case Nil
  then show ?case by simp
next
  case (Cons t ts)
  obtain p1 r1 where step: "processToken p t = (p1, r1)" by (cases "processToken p t")
  with Cons.prems have r1: "r1 = None" and loop: "formatLoop p1 (n + 1) ts e = Finished p' n'"
    by (auto split: if_splits option.splits fault.splits)
  from processToken_delta [of p t p1] step r1
  have d: "depth p1 = depth p + nestingDelta t" "depth p1 \<le> 100" by simp_all
  from Cons.IH [OF loop d(2)] d(1) Cons.prems(2) show ?case by simp
qed

lemma recoverPanic_depth_error: "snd (recoverPanic v) = Some err \<Longrightarrow> \<not> depthGuardError err"
  by (cases v)
     (auto simp: recoverPanic_def depthGuardError_def NewFormatError_def WrapFormatError_def)

text \<open>
  On tokens whose nesting depth never exceeds 100, \<^verbatim>\<open>Format\<close> never returns the
  error of the depth guard. On tokens whose nesting depth reaches 101, \<^verbatim>\<open>Format\<close>
  returns an error and the empty result. The guard is checked before the opening token
  is acted on: at depth 100, where a value may start, an opening brace or bracket is
  refused with the error of the depth guard and the parser is left as it was.
\<close>

lemma Format_depth_guard:
  "(maxNesting 0 tokens \<le> 100 \<longrightarrow>
      (\<forall>err. snd (Format f jsonStr tokens e) = Some err \<longrightarrow> \<not> depthGuardError err))
   \<and> (100 < maxNesting 0 tokens \<longrightarrow> (\<exists>err. Format f jsonStr tokens e = ([], Some err)))
   \<and> (depth p = 100 \<and> builder p \<noteq> None \<and> config p \<noteq> None \<and> \<not> expectingKey p
        \<and> (t = Delim CHR ''{'' \<or> t = Delim CHR ''['') \<longrightarrow>
      processToken p t =
        (p, Some (Err (NewFormatError ''JSON structure too deeply nested (max depth: 100)''))))"
proof -
  have init: "depth (newParser f jsonStr) = 0"
    by (simp add: newParser_def)
  have below: "\<not> depthGuardError err"
    if small: "maxNesting 0 tokens \<le> 100" and err: "snd (Format f jsonStr tokens e) = Some err"
    for err
  proof (cases "jsonStr = []")
    case True
    with err show ?thesis
      by (auto simp: Format_def depthGuardError_def NewFormatError_def WrapFormatError_def)
  next
    case False
    show ?thesis
    proof (cases "formatLoop (newParser f jsonStr) 0 tokens e")
      case (Returned r x)
      with False err have x: "x = Some err" by (simp add: Format_def)
      show ?thesis
      proof
        assume "depthGuardError err"
        from formatLoop_depth_error [OF Returned [unfolded x] this] init small
        show False by simp
      qed
    next
      case (Panicked v)
      with False err recoverPanic_depth_error [of v err] show ?thesis
        by (simp add: Format_def)
    next
      case (Finished q n)
      with False err show ?thesis
        by (auto simp: Format_def depthGuardError_def NewFormatError_def WrapFormatError_def
              split: if_splits)
    qed
  qed
  have above: "\<exists>err. Format f jsonStr tokens e = ([], Some err)" if "100 < maxNesting 0 tokens"
  proof (cases "jsonStr = []")
    case True
    then show ?thesis by (simp add: Format_def)
  next
    case False
    show ?thesis
    proof (cases "formatLoop (newParser f jsonStr) 0 tokens e")
      case (Returned r x)
      with formatLoop_Returned [OF Returned] False show ?thesis
        by (auto simp: Format_def)
    next
      case (Panicked v)
      with recoverPanic_error [of v] False show ?thesis
        by (auto simp: Format_def)
    next
      case (Finished q n)
      from formatLoop_Finished_nesting [OF Finished] init that show ?thesis by simp
    qed
  qed
  have guard: "depth p = 100 \<and> builder p \<noteq> None \<and> config p \<noteq> None \<and> \<not> expectingKey p
        \<and> (t = Delim CHR ''{'' \<or> t = Delim CHR ''['') \<longrightarrow>
      processToken p t =
        (p, Some (Err (NewFormatError ''JSON structure too deeply nested (max depth: 100)'')))"
    by (auto simp: processToken_def handleDelimiter_def startObject_def startArray_def fail_def)
  from below above guard show ?thesis by blast
qed

lemma maxNesting_open:
  "maxNesting d (replicate k (Delim CHR ''['') @ ts) = maxNesting (d + int k) ts"
proof (induction k arbitrary: d)
  case 0
  show ?case by simp
next
  case (Suc k)
  have "d \<le> maxNesting (d + 1 + int k) ts"
    using maxNesting_ge [of "d + 1 + int k" ts] by simp
  with Suc [of "d + 1"] show ?case
    by (simp add: nestingDelta_def add.assoc)
qed

lemma maxNesting_close: "maxNesting d (replicate k (Delim CHR '']'')) = d"
  by (induction k arbitrary: d) (auto simp: nestingDelta_def)

lemma maxNesting_deepTokens: "maxNesting 0 (deepTokens k) = int k"
  by (simp add: deepTokens_def maxNesting_open maxNesting_close)

lemma butlast_replicate_Suc: "butlast (replicate (Suc n) x) = replicate n x"
  by (induction n) auto

lemma processToken_open_array:
  assumes "d < 100"
  shows "processToken (arrays d b c l) (Delim CHR ''['') = (arrays (Suc d) (b @ ''['') c l, None)"
proof (cases d)
  case 0
  then show ?thesis
    by (simp add: arrays_def processToken_def handleDelimiter_def startArray_def isInArray_def
          andThen_def ok_def wrapping_def enterArray_def WriteString_def)
next
  case (Suc m)
  with assms show ?thesis
    by (simp add: arrays_def processToken_def handleDelimiter_def startArray_def isInArray_def
          andThen_def ok_def wrapping_def enterArray_def WriteString_def
          replicate_append_same)
qed

lemma formatLoop_open_arrays:
  "d + k \<le> 100 \<Longrightarrow> n + int k \<le> 10000 \<Longrightarrow>
   formatLoop (arrays d b c l) n (replicate k (Delim CHR ''['') @ ts) e
     = formatLoop (arrays (d + k) (b @ replicate k CHR ''['') c l) (n + int k) ts e"
proof (induction k arbitrary: d n b)
  case 0
  show ?case by simp
next
  case (Suc k)
  from Suc.prems have "d < 100" by simp
  from processToken_open_array [OF this, of b c l] Suc.prems
  have "formatLoop (arrays d b c l) n (replicate (Suc k) (Delim CHR ''['') @ ts) e
      = formatLoop (arrays (Suc d) (b @ ''['') c l) (n + 1) (replicate k (Delim CHR ''['') @ ts) e"
    by simp
  also have "\<dots> = formatLoop (arrays (Suc d + k) ((b @ ''['') @ replicate k CHR ''['') c l)
      (n + 1 + int k) ts e"
    using Suc.prems by (intro Suc.IH) auto
  finally show ?case by (simp add: add.assoc replicate_append_same)
qed

lemma processToken_close_array:
  assumes "0 < CompactDepth c" "CompactDepth c \<le> int (Suc d)" "0 < d" "d < 100"
  shows "processToken ((arrays (Suc d) b c l)\<lparr>isFirstElement := fe\<rparr>) (Delim CHR '']'')
     = ((arrays d (b @ '']'') c l)\<lparr>isFirstElement := fe\<rparr>, None)"
  using assms
  by (simp add: arrays_def processToken_def handleDelimiter_def endArray_def isInArray_def
        andThen_def ok_def wrapping_def exitArray_def WriteString_def shouldFormatCompact_def
        butlast_replicate_Suc del: replicate_Suc)

lemma formatLoop_close_arrays:
  "0 < CompactDepth c \<Longrightarrow> CompactDepth c \<le> int (Suc d) \<Longrightarrow> 0 < d \<Longrightarrow> d + k \<le> 100
   \<Longrightarrow> n + int k \<le> 10000 \<Longrightarrow>
   formatLoop ((arrays (d + k) b c l)\<lparr>isFirstElement := fe\<rparr>) n
       (replicate k (Delim CHR '']'') @ ts) e
     = formatLoop ((arrays d (b @ replicate k CHR '']'') c l)\<lparr>isFirstElement := fe\<rparr>)
         (n + int k) ts e"
proof (induction k arbitrary: n b)
  case 0
  show ?case by simp
next
  case (Suc k)
  have "processToken ((arrays (Suc (d + k)) b c l)\<lparr>isFirstElement := fe\<rparr>) (Delim CHR '']'')
     = ((arrays (d + k) (b @ '']'') c l)\<lparr>isFirstElement := fe\<rparr>, None)"
    using Suc.prems by (intro processToken_close_array) auto
  with Suc.prems
  have "formatLoop ((arrays (d + Suc k) b c l)\<lparr>isFirstElement := fe\<rparr>) n
       (replicate (Suc k) (Delim CHR '']'') @ ts) e
      = formatLoop ((arrays (d + k) (b @ '']'') c l)\<lparr>isFirstElement := fe\<rparr>) (n + 1)
          (replicate k (Delim CHR '']'') @ ts) e"
    by simp
  also have "\<dots> = formatLoop ((arrays d ((b @ '']'') @ replicate k CHR '']'') c l)
      \<lparr>isFirstElement := fe\<rparr>) (n + 1 + int k) ts e"
    using Suc.prems by (intro Suc.IH) auto
  finally show ?case by (simp add: add.assoc replicate_append_same)
qed

lemma newParser_arrays:
  "newParser (NewFormatter (Some c)) s = arrays 0 [] c (int (length s))"
  by (simp add: newParser_def NewFormatter_def arrays_def)

lemma deepInput_nonempty: "0 < k \<Longrightarrow> deepInput k \<noteq> []"
  by (simp add: deepInput_def)

lemma formatLoop_deep100:
  "formatLoop (newParser (NewFormatter (Some DefaultConfig)) (deepInput 100)) 0
      (deepTokens 100) EOF
     = Finished ((arrays 0 (replicate 100 CHR ''['' @ replicate 98 CHR '']'' @ nl @ ''  ]''
                              @ nl @ '']'')
                   DefaultConfig (int (length (deepInput 100))))\<lparr>expectingKey := True\<rparr>) 200"
proof -
  let ?l = "int (length (deepInput 100))"
  have split: "replicate 100 (Delim CHR '']'')
      = replicate 98 (Delim CHR '']'') @ [Delim CHR '']'', Delim CHR '']'']"
    using replicate_add [of 98 2 "Delim CHR '']''"] by (simp add: replicate_numeral)
  have "formatLoop (arrays 0 [] DefaultConfig ?l) 0 (deepTokens 100) EOF
      = formatLoop (arrays (0 + 100) ([] @ replicate 100 CHR ''['') DefaultConfig ?l)
          (0 + int 100) (replicate 100 (Delim CHR '']'')) EOF"
    unfolding deepTokens_def by (intro formatLoop_open_arrays) auto
  also have "\<dots> = formatLoop
        ((arrays (2 + 98) (replicate 100 CHR ''['') DefaultConfig ?l)\<lparr>isFirstElement := True\<rparr>)
        100 (replicate 98 (Delim CHR '']'') @ [Delim CHR '']'', Delim CHR '']'']) EOF"
    by (simp add: split arrays_def)
  also have "\<dots> = formatLoop
        ((arrays 2 (replicate 100 CHR ''['' @ replicate 98 CHR '']'') DefaultConfig ?l)
           \<lparr>isFirstElement := True\<rparr>)
        (100 + int 98) [Delim CHR '']'', Delim CHR '']''] EOF"
    by (intro formatLoop_close_arrays) (auto simp: DefaultConfig_def)
  also have "\<dots> = Finished ((arrays 0 (replicate 100 CHR ''['' @ replicate 98 CHR '']'' @ nl
                              @ ''  ]'' @ nl @ '']'')
                   DefaultConfig ?l)\<lparr>expectingKey := True\<rparr>) 200"
    by (simp add: arrays_def DefaultConfig_def engine_defs replicate_numeral)
  finally show ?thesis by (simp add: newParser_arrays)
qed

lemma Format_deep100:
  "Format (NewFormatter (Some DefaultConfig)) (deepInput 100) (deepTokens 100) EOF
     = (replicate 100 CHR ''['' @ replicate 98 CHR '']'' @ nl @ ''  ]'' @ nl @ '']'', None)"
  using deepInput_nonempty [of 100]
  by (simp add: Format_def formatLoop_deep100 arrays_def)

lemma Format_deep101:
  "Format (NewFormatter (Some DefaultConfig)) (deepInput 101) (deepTokens 101) EOF
     = ([], Some (NewFormatError ''JSON structure too deeply nested (max depth: 100)''))"
proof -
  let ?l = "int (length (deepInput 101))"
  let ?rest = "Delim CHR ''['' # replicate 101 (Delim CHR '']'')"
  have split: "deepTokens 101 = replicate 100 (Delim CHR ''['') @ ?rest"
    using replicate_add [of 100 1 "Delim CHR ''[''"] by (simp add: deepTokens_def)
  have "formatLoop (arrays 0 [] DefaultConfig ?l) 0 (replicate 100 (Delim CHR ''['') @ ?rest) EOF
      = formatLoop (arrays (0 + 100) ([] @ replicate 100 CHR ''['') DefaultConfig ?l)
          (0 + int 100) ?rest EOF"
    by (intro formatLoop_open_arrays) auto
  also have "\<dots> = Returned []
      (Some (NewFormatError ''JSON structure too deeply nested (max depth: 100)''))"
    by (simp add: arrays_def processToken_def handleDelimiter_def startArray_def fail_def
          del: replicate_Suc)
  finally show ?thesis
    using deepInput_nonempty [of 101]
    by (simp add: Format_def newParser_arrays split)
qed

lemma formatLoop_c6:
  "formatLoop (newParser (NewFormatter (Some DefaultConfig)) s) 0
      ([Delim CHR ''{'', String ''a'', Delim CHR ''{'', Delim CHR ''}'', String ''b'',
        Delim CHR ''[''] @ ts) e
     = Returned [] (Some (NewFormatError
         ''malformed JSON: unexpected array start, expected object key''))"
  by (simp add: format_defs engine_defs replicate_numeral)

lemma deepTokens_Suc:
  "deepTokens (Suc k) = Delim CHR ''['' # replicate k (Delim CHR ''['')
      @ replicate (Suc k) (Delim CHR '']'')"
  by (simp add: deepTokens_def)

text \<open>
  Arrays of depth 100 are formatted; arrays of depth 101 are refused with the error of
  the depth guard.
\<close>

lemma Format_depth_guard_examples:
  "maxNesting 0 (deepTokens 100) = 100
   \<and> Format (NewFormatter (Some DefaultConfig)) (deepInput 100) (deepTokens 100) EOF
       = (replicate 100 CHR ''['' @ replicate 98 CHR '']'' @ nl @ ''  ]'' @ nl @ '']'', None)
   \<and> maxNesting 0 (deepTokens 101) = 101
   \<and> Format (NewFormatter (Some DefaultConfig)) (deepInput 101) (deepTokens 101) EOF
       = ([], Some (NewFormatError ''JSON structure too deeply nested (max depth: 100)''))
   \<and> processToken (arrays 100 (replicate 100 CHR ''['') DefaultConfig 202) (Delim CHR ''['')
       = (arrays 100 (replicate 100 CHR ''['') DefaultConfig 202,
          Some (Err (NewFormatError ''JSON structure too deeply nested (max depth: 100)'')))"
proof -
  let ?f = "NewFormatter (Some DefaultConfig)"
  let ?p = "arrays 100 (replicate 100 CHR ''['') DefaultConfig 202"
  note low = Format_depth_guard [of "deepTokens 100" ?f "deepInput 100" EOF ?p "Delim CHR ''[''"]
  note high = Format_depth_guard [of "deepTokens 101" ?f "deepInput 101" EOF ?p "Delim CHR ''[''"]
  have n100: "maxNesting 0 (deepTokens 100) = 100" and n101: "maxNesting 0 (deepTokens 101) = 101"
    by (simp_all add: maxNesting_deepTokens)
  from low n100
  have "\<forall>err. snd (Format ?f (deepInput 100) (deepTokens 100) EOF) = Some err \<longrightarrow>
      \<not> depthGuardError err"
    by simp
  from high n101 obtain err where
    "Format ?f (deepInput 101) (deepTokens 101) EOF = ([], Some err)"
    by auto
  have "depth ?p = 100 \<and> builder ?p \<noteq> None \<and> config ?p \<noteq> None \<and> \<not> expectingKey ?p
      \<and> (Delim CHR ''['' = Delim CHR ''{'' \<or> Delim CHR ''['' = Delim CHR ''['')"
    by (simp add: arrays_def)
  with high have guard: "processToken ?p (Delim CHR ''['')
       = (?p, Some (Err (NewFormatError ''JSON structure too deeply nested (max depth: 100)'')))"
    by blast
  from n100 n101 Format_deep100 Format_deep101 guard show ?thesis by blast
qed

lemma processToken_open_array_in:
  assumes "0 < d" "Suc d < 100"
  shows "processToken (arraysIn d b c l) (Delim CHR ''['')
     = (arraysIn (Suc d) (b @ ''['') c l, None)"
proof (cases d)
  case 0
  with assms show ?thesis by simp
next
  case (Suc m)
  with assms show ?thesis
    by (simp add: arraysIn_def processToken_def handleDelimiter_def startArray_def isInArray_def
          andThen_def ok_def wrapping_def enterArray_def WriteString_def
          replicate_append_same)
qed

lemma formatLoop_open_arrays_in:
  "0 < d \<Longrightarrow> Suc d + k \<le> 100 \<Longrightarrow> n + int k \<le> 10000 \<Longrightarrow>
   formatLoop (arraysIn d b c l) n (replicate k (Delim CHR ''['') @ ts) e
     = formatLoop (arraysIn (d + k) (b @ replicate k CHR ''['') c l) (n + int k) ts e"
proof (induction k arbitrary: d n b)
  case 0
  show ?case by simp
next
  case (Suc k)
  from Suc.prems have "0 < d" "Suc d < 100" by simp_all
  from processToken_open_array_in [OF this, of b c l] Suc.prems
  have "formatLoop (arraysIn d b c l) n (replicate (Suc k) (Delim CHR ''['') @ ts) e
      = formatLoop (arraysIn (Suc d) (b @ ''['') c l) (n + 1)
          (replicate k (Delim CHR ''['') @ ts) e"
    by simp
  also have "\<dots> = formatLoop (arraysIn (Suc d + k) ((b @ ''['') @ replicate k CHR ''['') c l)
      (n + 1 + int k) ts e"
    using Suc.prems by (intro Suc.IH) auto
  finally show ?case by (simp add: add.assoc replicate_append_same)
qed

lemma formatLoop_c6_sibling_prefix:
  "formatLoop (newParser (NewFormatter (Some DefaultConfig)) s) 0
      ([Delim CHR ''{'', String ''a'', Delim CHR ''['', Delim CHR '']'', String ''b'',
        Delim CHR ''[''] @ ts) e
     = formatLoop (arraysIn 1 (''{'' @ nl @ ''  '' @ dq @ ''a'' @ dq @ '': ['' @ nl @ ''  ]''
                                @ nl @ ''  '' @ dq @ ''b'' @ dq @ '': ['')
                     DefaultConfig (int (length s))) 6 ts e"
  by (simp add: format_defs engine_defs arraysIn_def replicate_numeral)

lemma Format_c6_sibling:
  "Format (NewFormatter (Some DefaultConfig)) c6_sibling_input c6_sibling_tokens EOF
     = ([], Some (NewFormatError ''JSON structure too deeply nested (max depth: 100)''))"
proof -
  let ?l = "int (length c6_sibling_input)"
  let ?b = "''{'' @ nl @ ''  '' @ dq @ ''a'' @ dq @ '': ['' @ nl @ ''  ]''
                                @ nl @ ''  '' @ dq @ ''b'' @ dq @ '': [''"
  let ?rest = "Delim CHR ''['' # Delim CHR ''['' # replicate 101 (Delim CHR '']'')
      @ [Delim CHR ''}'']"
  have "replicate 101 (Delim CHR ''['')
      = Delim CHR ''['' # replicate 98 (Delim CHR ''['') @ [Delim CHR ''['', Delim CHR ''['']"
    using replicate_add [of 98 2 "Delim CHR ''[''"] replicate_add [of 1 100 "Delim CHR ''[''"]
    by (simp add: replicate_numeral)
  then have tokens: "c6_sibling_tokens
      = [Delim CHR ''{'', String ''a'', Delim CHR ''['', Delim CHR '']'', String ''b'',
         Delim CHR ''[''] @ (replicate 98 (Delim CHR ''['') @ ?rest)"
    by (simp add: c6_sibling_tokens_def deepTokens_def)
  have "formatLoop (newParser (NewFormatter (Some DefaultConfig)) c6_sibling_input) 0
          c6_sibling_tokens EOF
      = formatLoop (arraysIn 1 ?b DefaultConfig ?l) 6 (replicate 98 (Delim CHR ''['') @ ?rest) EOF"
    unfolding tokens by (rule formatLoop_c6_sibling_prefix)
  also have "\<dots> = formatLoop (arraysIn (1 + 98) (?b @ replicate 98 CHR ''['') DefaultConfig ?l)
          (6 + int 98) ?rest EOF"
    by (intro formatLoop_open_arrays_in) auto
  also have "\<dots> = Returned []
      (Some (NewFormatError ''JSON structure too deeply nested (max depth: 100)''))"
    by (simp add: arraysIn_def processToken_def handleDelimiter_def startArray_def fail_def
          del: replicate_Suc)
  finally show ?thesis
    by (simp add: Format_def c6_sibling_input_def)
qed

text \<open>
  Claim C6 fails on \<^verbatim>\<open>{"a":{},"b":[[\<dots>]]}\<close> with 101 nested arrays. The input reaches
  a nesting depth above 100, and \<^verbatim>\<open>Format\<close> returns the error of a malformed
  structure, which is not the error of the depth guard: after the \<^verbatim>\<open>}\<close> of the
  empty object, \<^verbatim>\<open>endObject\<close> leaves \<^verbatim>\<open>expectingKey\<close> false, so \<^verbatim>\<open>"b"\<close> is taken
  as a value and the bracket after it is refused where a key is expected. With an empty
  array in the place of the empty object, \<^verbatim>\<open>endArray\<close> sets \<^verbatim>\<open>expectingKey\<close> again
  and \<^verbatim>\<open>Format\<close> returns the error of the depth guard.
\<close>

theorem depth_guard_unreached:
  "100 < maxNesting 0 c6_tokens
   \<and> Format (NewFormatter (Some DefaultConfig)) c6_input c6_tokens EOF
     = ([], Some (NewFormatError
         ''malformed JSON: unexpected array start, expected object key''))
   \<and> \<not> depthGuardError (NewFormatError
         ''malformed JSON: unexpected array start, expected object key'')
   \<and> 100 < maxNesting 0 c6_sibling_tokens
   \<and> Format (NewFormatter (Some DefaultConfig)) c6_sibling_input c6_sibling_tokens EOF
     = ([], Some (NewFormatError ''JSON structure too deeply nested (max depth: 100)''))"
proof -
  have s: "(101::nat) = Suc 100" by simp
  have "maxNesting 1 (deepTokens 101 @ ts)
      = maxNesting (1 + int 101) (replicate 101 (Delim CHR '']'') @ ts)" for ts
    unfolding deepTokens_def append_assoc by (rule maxNesting_open)
  with maxNesting_ge [of "1 + int 101"]
  have deep: "102 \<le> maxNesting 1 (deepTokens 101 @ ts)" for ts
    by simp
  from deep [of "[Delim CHR ''}'']"] have nesting: "100 < maxNesting 0 c6_tokens"
    by (simp add: c6_tokens_def nestingDelta_def less_max_iff_disj)
  from deep [of "[Delim CHR ''}'']"] have nesting_sibling: "100 < maxNesting 0 c6_sibling_tokens"
    by (simp add: c6_sibling_tokens_def nestingDelta_def less_max_iff_disj)
  have nonempty: "c6_input \<noteq> []"
    by (simp add: c6_input_def)
  have tokens: "c6_tokens = [Delim CHR ''{'', String ''a'', Delim CHR ''{'', Delim CHR ''}'',
        String ''b'', Delim CHR ''[''] @ (replicate 100 (Delim CHR ''['')
      @ replicate (Suc 100) (Delim CHR '']'') @ [Delim CHR ''}''])"
    unfolding c6_tokens_def s deepTokens_Suc by simp
  have "formatLoop (newParser (NewFormatter (Some DefaultConfig)) c6_input) 0 c6_tokens EOF
     = Returned [] (Some (NewFormatError
         ''malformed JSON: unexpected array start, expected object key''))"
    unfolding tokens by (rule formatLoop_c6)
  with nonempty have structural: "Format (NewFormatter (Some DefaultConfig)) c6_input c6_tokens EOF
     = ([], Some (NewFormatError
         ''malformed JSON: unexpected array start, expected object key''))"
    by (simp add: Format_def)
  have other: "\<not> depthGuardError (NewFormatError
         ''malformed JSON: unexpected array start, expected object key'')"
    by (simp add: depthGuardError_def NewFormatError_def WrapFormatError_def)
  from nesting structural other nesting_sibling Format_c6_sibling show ?thesis by blast
qed

end
